theory Spec2Isabelle
  imports Complex_Main
begin

section \<open>Python strings\<close>

text \<open>
  A Python \<^verbatim>\<open>str\<close> is a sequence of Unicode code points, so a string is a list of
  natural numbers here; \<open>ustr\<close> embeds an ASCII literal. The en dash is U+2013 and the
  pound sign U+00A3, neither of which fits an 8-bit \<open>char\<close>.
\<close>

type_synonym uchar = nat
type_synonym ustring = "uchar list"

definition ustr :: "string \<Rightarrow> ustring" where
  "ustr s = map of_char s"

definition hyphen :: uchar where "hyphen = 45"
definition newline :: uchar where "newline = 10"
definition en_dash :: uchar where "en_dash = 8211"
definition pound :: uchar where "pound = 163"
definition comma :: uchar where "comma = 44"
definition full_stop :: uchar where "full_stop = 46"

text \<open>
  \<^verbatim>\<open>str.isspace\<close>, which is also what \<^verbatim>\<open>str.strip()\<close> removes and what \<^verbatim>\<open>\s\<close>
  matches in a \<^verbatim>\<open>str\<close> pattern.
\<close>

definition isspace :: "uchar \<Rightarrow> bool" where
  "isspace c \<longleftrightarrow>
     (9 \<le> c \<and> c \<le> 13) \<or> (28 \<le> c \<and> c \<le> 32) \<or> c = 133 \<or> c = 160 \<or> c = 5760 \<or>
     (8192 \<le> c \<and> c \<le> 8202) \<or> c = 8232 \<or> c = 8233 \<or> c = 8239 \<or> c = 8287 \<or> c = 12288"

text \<open>
  \<^verbatim>\<open>\d\<close> in a \<^verbatim>\<open>str\<close> pattern matches every Unicode decimal digit (category Nd), and
  \<^verbatim>\<open>int()\<close> and \<^verbatim>\<open>float()\<close> read all of them. The decimal digits come in runs of ten,
  each run listed here by its zero (Unicode 14, the database of Python 3.11).
\<close>

definition decimal_zeros :: "uchar list" where
  "decimal_zeros =
     [48, 1632, 1776, 1984, 2406, 2534, 2662, 2790, 2918, 3046, 3174, 3302, 3430, 3558,
      3664, 3792, 3872, 4160, 4240, 6112, 6160, 6470, 6608, 6784, 6800, 6992, 7088, 7232,
      7248, 42528, 43216, 43264, 43472, 43504, 43600, 44016, 65296, 66720, 68912, 69734,
      69872, 69942, 70096, 70384, 70736, 70864, 71248, 71360, 71472, 71904, 72016, 72784,
      73040, 73120, 92768, 92864, 93008, 120782, 120792, 120802, 120812, 120822, 123200,
      123632, 125264, 130032]"

definition todecimal :: "uchar \<Rightarrow> nat option" where
  "todecimal c =
     (case find (\<lambda>z. z \<le> c \<and> c \<le> z + 9) decimal_zeros of
        None \<Rightarrow> None
      | Some z \<Rightarrow> Some (c - z))"

definition isdecimal :: "uchar \<Rightarrow> bool" where
  "isdecimal c \<longleftrightarrow> todecimal c \<noteq> None"

text \<open>The value of a run of decimal digits, most significant digit first.\<close>

definition decimal_value :: "ustring \<Rightarrow> int" where
  "decimal_value ds =
     foldl (\<lambda>a c. 10 * a + (case todecimal c of None \<Rightarrow> 0 | Some d \<Rightarrow> int d)) 0 ds"

text \<open>
  \<^verbatim>\<open>str.lower()\<close> on the ASCII letters. Outside ASCII only U+0130 and U+212A have a
  lower case with an ASCII letter in it (\<open>i\<close> and \<open>k\<close>), and no word the scripts look
  for has an \<open>i\<close> or a \<open>k\<close>, so the tests on lowered names below come out as in Python.
\<close>

definition lower_char :: "uchar \<Rightarrow> uchar" where
  "lower_char c = (if 65 \<le> c \<and> c \<le> 90 then c + 32 else c)"

definition lower :: "ustring \<Rightarrow> ustring" where
  "lower s = map lower_char s"

definition strip :: "ustring \<Rightarrow> ustring" where
  "strip s = rev (dropWhile isspace (rev (dropWhile isspace s)))"

text \<open>\<^verbatim>\<open>s.replace(a, b)\<close> for one-character \<open>a\<close> and \<open>b\<close>, and for an empty \<open>b\<close>.\<close>

definition replace_char :: "uchar \<Rightarrow> uchar \<Rightarrow> ustring \<Rightarrow> ustring" where
  "replace_char a b s = map (\<lambda>c. if c = a then b else c) s"

definition remove_char :: "uchar \<Rightarrow> ustring \<Rightarrow> ustring" where
  "remove_char a s = filter (\<lambda>c. c \<noteq> a) s"

text \<open>\<^verbatim>\<open>needle in s\<close>: the needle occurs as a contiguous run.\<close>

fun starts_with :: "ustring \<Rightarrow> ustring \<Rightarrow> bool" where
  "starts_with [] s = True"
| "starts_with (x # xs) [] = False"
| "starts_with (x # xs) (c # s) = (x = c \<and> starts_with xs s)"

fun contains :: "ustring \<Rightarrow> ustring \<Rightarrow> bool" where
  "contains needle [] = (needle = [])"
| "contains needle (c # s) = (starts_with needle (c # s) \<or> contains needle s)"

text \<open>\<^verbatim>\<open>str(n)\<close> of an integer, as an f-string formats it.\<close>

fun str_nat :: "nat \<Rightarrow> ustring" where
  "str_nat n = (if n < 10 then [48 + n] else str_nat (n div 10) @ [48 + n mod 10])"

declare str_nat.simps [simp del]

definition str_int :: "int \<Rightarrow> ustring" where
  "str_int i = (if i < 0 then hyphen # str_nat (nat (- i)) else str_nat (nat i))"

text \<open>
  \<^verbatim>\<open>$\<close> without the MULTILINE flag matches at the end of the string and just before
  a newline that ends the string.
\<close>

definition at_end :: "ustring \<Rightarrow> bool" where
  "at_end r \<longleftrightarrow> r = [] \<or> r = [newline]"

datatype error = ValueError string | RuntimeError string

section \<open>Patterns of digit groups\<close>

text \<open>
  The patterns \<^verbatim>\<open>^(\d{n})-(\d{m})$\<close> of the scripts, matched from the start of the
  string as \<^verbatim>\<open>re.match\<close> does: the two groups when the string matches.
\<close>

definition digit_groups_match :: "nat \<Rightarrow> nat \<Rightarrow> ustring \<Rightarrow> (ustring \<times> ustring) option" where
  "digit_groups_match n m s =
     (let g1 = take n s; r1 = drop n s in
      if length g1 = n \<and> list_all isdecimal g1 then
        (case r1 of
           [] \<Rightarrow> None
         | c # r2 \<Rightarrow>
             if c = hyphen then
               (let g2 = take m r2; r3 = drop m r2 in
                if length g2 = m \<and> list_all isdecimal g2 \<and> at_end r3 then Some (g1, g2)
                else None)
             else None)
      else None)"

section \<open>The wage scraper: the season range\<close>

text \<open>\<^verbatim>\<open>re.match(r"^(\d{4})-(\d{4})$", s)\<close>.\<close>

definition season_match :: "ustring \<Rightarrow> (ustring \<times> ustring) option" where
  "season_match s = digit_groups_match 4 4 s"

text \<open>
  \<^verbatim>\<open>int(g)\<close> for a string of decimal digits; anything else the model gives to it is the
  \<^verbatim>\<open>ValueError\<close> of Python.
\<close>

definition py_int :: "ustring \<Rightarrow> error + int" where
  "py_int g =
     (if g \<noteq> [] \<and> list_all isdecimal g then Inr (decimal_value g)
      else Inl (ValueError ''invalid literal for int() with base 10''))"

definition season_str :: "int \<Rightarrow> ustring" where
  "season_str y = str_int y @ [hyphen] @ str_int (y + 1)"

text \<open>The loop \<^verbatim>\<open>for y in range(start_year, end_year + 1): seasons.append(f"{y}-{y+1}")\<close>.\<close>

function season_loop :: "int \<Rightarrow> int \<Rightarrow> ustring list \<Rightarrow> ustring list" where
  "season_loop y stop seasons =
     (if y < stop then season_loop (y + 1) stop (seasons @ [season_str y]) else seasons)"
  by pat_completeness auto
termination
  by (relation "measure (\<lambda>(y, stop, seasons). nat (stop - y))") auto

declare season_loop.simps [simp del]

definition format_error :: error where
  "format_error = ValueError ''Seasons must be in YYYY-YYYY format''"

definition range_error :: error where
  "range_error = ValueError ''End season must be after start season''"

definition make_season_list :: "ustring \<Rightarrow> ustring \<Rightarrow> error + ustring list" where
  "make_season_list start_season end_season =
     (case (season_match start_season, season_match end_season) of
        (Some sm, Some em) \<Rightarrow>
          (case py_int (fst sm) of
             Inl err \<Rightarrow> Inl err
           | Inr start_year \<Rightarrow>
               (case py_int (fst em) of
                  Inl err \<Rightarrow> Inl err
                | Inr end_year \<Rightarrow>
                    if end_year < start_year then Inl range_error
                    else Inr (season_loop start_year (end_year + 1) [])))
      | _ \<Rightarrow> Inl format_error)"

section \<open>Data preparation: the season label\<close>

text \<open>
  The objects that \<open>normalise_season_value\<close> tests with \<^verbatim>\<open>is not None\<close> and formats in
  an f-string: \<^verbatim>\<open>None\<close>, the float \<^verbatim>\<open>nan\<close> and strings.
\<close>

datatype pyobj = PyNone | NaN | Str ustring

fun format_obj :: "pyobj \<Rightarrow> ustring" where
  "format_obj PyNone = ustr ''None''"
| "format_obj NaN = ustr ''nan''"
| "format_obj (Str s) = s"

text \<open>
  \<^verbatim>\<open>pd.Series([s]).str.extract(r"^(\d{2})-(\d{2})$").iloc[0].tolist()\<close>: one column for
  each group, holding the group where the string matches; pandas documents that
  non-matches are \<^verbatim>\<open>NaN\<close>.
\<close>

definition extract_two_digit_groups :: "ustring \<Rightarrow> pyobj \<times> pyobj" where
  "extract_two_digit_groups s =
     (case digit_groups_match 2 2 s of
        None \<Rightarrow> (NaN, NaN)
      | Some (g1, g2) \<Rightarrow> (Str g1, Str g2))"

text \<open>\<^verbatim>\<open>pd.Series([s]).str.match(r"^\d{4}-\d{2}$").iloc[0]\<close>.\<close>

definition long_season_match :: "ustring \<Rightarrow> bool" where
  "long_season_match s \<longleftrightarrow> digit_groups_match 4 2 s \<noteq> None"

definition normalise_season_value :: "ustring \<Rightarrow> ustring" where
  "normalise_season_value s0 =
     (let s = replace_char en_dash hyphen (strip s0);
          m = extract_two_digit_groups s
      in if fst m \<noteq> PyNone \<and> snd m \<noteq> PyNone
         then ustr ''20'' @ format_obj (fst m) @ [hyphen] @ format_obj (snd m)
         else if long_season_match s then s
         else s)"

section \<open>Tables of the analysis and regression scripts\<close>

text \<open>
  A cell of a table read from CSV: missing (\<^verbatim>\<open>NaN\<close>), a finite float, an infinite float,
  an integer, or text.
\<close>

datatype cell = Nan | Num rat | Infinite | IntV int | Txt ustring

record row =
  season :: ustring
  club :: ustring
  points_total :: cell
  league_position :: cell
  total_wage_bill_gbp_m :: cell
  gross_transfer_spend_gbp_m :: cell
  promoted :: cell

text \<open>
  \<^verbatim>\<open>pd.to_numeric(column, errors="coerce")\<close>, cell by cell. How pandas reads a text is the
  parameter \<open>parse\<close>: as a finite number, as an infinite one (the text \<^verbatim>\<open>inf\<close>, for one), or
  not at all, and then the cell becomes \<^verbatim>\<open>NaN\<close>.
\<close>

datatype reading = Number rat | Infinity

definition to_numeric :: "(ustring \<Rightarrow> reading option) \<Rightarrow> cell \<Rightarrow> cell" where
  "to_numeric parse c =
     (case c of
        Txt s \<Rightarrow>
          (case parse s of
             None \<Rightarrow> Nan
           | Some (Number q) \<Rightarrow> Num q
           | Some Infinity \<Rightarrow> Infinite)
      | _ \<Rightarrow> c)"

definition isna :: "cell \<Rightarrow> bool" where
  "isna c \<longleftrightarrow> c = Nan"

definition fillna :: "cell \<Rightarrow> cell \<Rightarrow> cell" where
  "fillna v c = (if isna c then v else c)"

text \<open>
  \<^verbatim>\<open>astype(int)\<close>, to 64-bit integers: pandas raises on a missing or infinite value; a
  float is truncated towards zero, and one whose truncation is beyond the 64-bit range
  comes out as the smallest 64-bit integer.
\<close>

definition toward_zero :: "rat \<Rightarrow> int" where
  "toward_zero q = (if 0 \<le> q then \<lfloor>q\<rfloor> else \<lceil>q\<rceil>)"

definition int64_of :: "rat \<Rightarrow> int" where
  "int64_of q =
     (let i = toward_zero q in
      if - (2 ^ 63) \<le> i \<and> i < 2 ^ 63 then i else - (2 ^ 63))"

fun astype_int_cell :: "cell \<Rightarrow> error + cell" where
  "astype_int_cell Nan =
     Inl (ValueError ''Cannot convert non-finite values (NA or inf) to integer'')"
| "astype_int_cell Infinite =
     Inl (ValueError ''Cannot convert non-finite values (NA or inf) to integer'')"
| "astype_int_cell (Num q) = Inr (IntV (int64_of q))"
| "astype_int_cell (IntV i) = Inr (IntV i)"
| "astype_int_cell (Txt s) = Inl (ValueError ''invalid literal for int() with base 10'')"

fun astype_int :: "cell list \<Rightarrow> error + cell list" where
  "astype_int [] = Inr []"
| "astype_int (c # cs) =
     (case astype_int_cell c of
        Inl e \<Rightarrow> Inl e
      | Inr v \<Rightarrow> (case astype_int cs of Inl e \<Rightarrow> Inl e | Inr vs \<Rightarrow> Inr (v # vs)))"

text \<open>\<^verbatim>\<open>df["promoted"] = values\<close>.\<close>

definition set_promoted :: "row list \<Rightarrow> cell list \<Rightarrow> row list" where
  "set_promoted df values = map2 (\<lambda>r v. r\<lparr>promoted := v\<rparr>) df values"

text \<open>Step 4 of the analysis script: the loop over \<open>numeric_cols\<close>, then the promoted flag.\<close>

definition analysis_coerce :: "(ustring \<Rightarrow> reading option) \<Rightarrow> row list \<Rightarrow> error + row list" where
  "analysis_coerce parse df0 =
     (let df = map (total_wage_bill_gbp_m_update (to_numeric parse)) df0;
          df = map (league_position_update (to_numeric parse)) df;
          df = map (points_total_update (to_numeric parse)) df;
          df = map (gross_transfer_spend_gbp_m_update (to_numeric parse)) df;
          df = map (promoted_update (to_numeric parse)) df
      in case astype_int (map (\<lambda>r. fillna (Num 0) (promoted r)) df) of
           Inl e \<Rightarrow> Inl e
         | Inr values \<Rightarrow> Inr (set_promoted df values))"

text \<open>The regression script up to the promoted flag (lines 8 to 15).\<close>

definition regression_coerce :: "(ustring \<Rightarrow> reading option) \<Rightarrow> row list \<Rightarrow> error + row list" where
  "regression_coerce parse df0 =
     (let df = map (points_total_update (to_numeric parse)) df0;
          df = map (league_position_update (to_numeric parse)) df;
          df = map (total_wage_bill_gbp_m_update (to_numeric parse)) df;
          df = map (gross_transfer_spend_gbp_m_update (to_numeric parse)) df;
          df = map (gross_transfer_spend_gbp_m_update (fillna (Num 0))) df
      in case astype_int (map (\<lambda>r. fillna (Num 0) (to_numeric parse (promoted r))) df) of
           Inl e \<Rightarrow> Inl e
         | Inr values \<Rightarrow> Inr (set_promoted df values))"

text \<open>\<^verbatim>\<open>df.dropna(subset=["points_total", "total_wage_bill_gbp_m"])\<close>.\<close>

definition dropna_core :: "row list \<Rightarrow> row list" where
  "dropna_core df = filter (\<lambda>r. \<not> isna (points_total r) \<and> \<not> isna (total_wage_bill_gbp_m r)) df"

definition regression_prepare :: "(ustring \<Rightarrow> reading option) \<Rightarrow> row list \<Rightarrow> error + row list" where
  "regression_prepare parse df0 =
     (case regression_coerce parse df0 of
        Inl e \<Rightarrow> Inl e
      | Inr df \<Rightarrow> Inr (dropna_core df))"

text \<open>
  The four models are all built from the prepared table (\<^verbatim>\<open>data=df\<close>); the left-hand side
  of each formula is its dependent variable.
\<close>

datatype model = M1 | M2 | M3 | M4

fun dependent :: "model \<Rightarrow> row \<Rightarrow> cell" where
  "dependent M1 r = points_total r"
| "dependent M2 r = points_total r"
| "dependent M3 r = points_total r"
| "dependent M4 r = league_position r"

text \<open>
  The numeric variables of each formula, the dependent variable first. (\<open>season\<close>, in the
  formulas of M3 and M4, is a string in every row: the preparation script writes it for
  every row of every sheet, from the sheet name.)
\<close>

fun formula_cells :: "model \<Rightarrow> row \<Rightarrow> cell list" where
  "formula_cells M1 r = [points_total r, total_wage_bill_gbp_m r]"
| "formula_cells M2 r = [points_total r, total_wage_bill_gbp_m r, gross_transfer_spend_gbp_m r]"
| "formula_cells M3 r =
     [points_total r, total_wage_bill_gbp_m r, gross_transfer_spend_gbp_m r, promoted r]"
| "formula_cells M4 r =
     [league_position r, total_wage_bill_gbp_m r, gross_transfer_spend_gbp_m r, promoted r]"

text \<open>
  The rows a model is fit on: \<^verbatim>\<open>smf.ols(formula, data=df)\<close> has \<^verbatim>\<open>missing='drop'\<close> as its
  default and leaves out, before the fit, every row with a missing value in a variable
  of the formula.
\<close>

definition model_rows :: "model \<Rightarrow> row list \<Rightarrow> row list" where
  "model_rows m df = filter (\<lambda>r. list_all (\<lambda>c. \<not> isna c) (formula_cells m r)) df"

text \<open>What the specification expects of the promoted column after the coercion, from the
  table before it: no row is lost, a row without a readable promotion value has
  \<open>promoted = 0\<close>, and every promoted cell is an integer.\<close>

definition promoted_coerced :: "(ustring \<Rightarrow> reading option) \<Rightarrow> row list \<Rightarrow> row list \<Rightarrow> bool" where
  "promoted_coerced parse df0 df \<longleftrightarrow>
     length df = length df0 \<and>
     (\<forall>i<length df0. isna (to_numeric parse (promoted (df0 ! i))) \<longrightarrow> promoted (df ! i) = IntV 0) \<and>
     (\<forall>i<length df0. \<exists>n. promoted (df ! i) = IntV n)"

text \<open>
  For the examples: a parser that reads \<^verbatim>\<open>inf\<close> as infinite and nothing else; a row
  without a league position, a transfer spend and a promotion value, before and after
  the preparation; and a row whose promotion value is the text \<^verbatim>\<open>inf\<close>.
\<close>

definition reads_inf :: "ustring \<Rightarrow> reading option" where
  "reads_inf s = (if s = ustr ''inf'' then Some Infinity else None)"

definition unplaced_row :: row where
  "unplaced_row =
     \<lparr>season = ustr ''2013-14'', club = ustr ''Fulham'', points_total = IntV 32,
      league_position = Nan, total_wage_bill_gbp_m = Num 69, gross_transfer_spend_gbp_m = Nan,
      promoted = Nan\<rparr>"

definition unplaced_row_kept :: row where
  "unplaced_row_kept =
     \<lparr>season = ustr ''2013-14'', club = ustr ''Fulham'', points_total = IntV 32,
      league_position = Nan, total_wage_bill_gbp_m = Num 69, gross_transfer_spend_gbp_m = Num 0,
      promoted = IntV 0\<rparr>"

definition inf_row :: row where
  "inf_row =
     \<lparr>season = ustr ''2013-14'', club = ustr ''Fulham'', points_total = IntV 32,
      league_position = IntV 19, total_wage_bill_gbp_m = Num 69,
      gross_transfer_spend_gbp_m = Num 20, promoted = Txt (ustr ''inf'')\<rparr>"

section \<open>The wage scraper: finding the wages table\<close>

text \<open>
  A table read from the page: its column labels in order, and its rows. The labels are
  strings, so \<^verbatim>\<open>str(c)\<close> is the label itself.
\<close>

record dataframe =
  columns :: "ustring list"
  rows :: "pyobj list list"

definition is_club_column :: "ustring \<Rightarrow> bool" where
  "is_club_column c \<longleftrightarrow> lower (strip c) \<in> {ustr ''squad'', ustr ''club'', ustr ''team''}"

text \<open>What the inner loop over the columns appends for one column.\<close>

definition wage_col_candidate :: "ustring \<Rightarrow> ustring list" where
  "wage_col_candidate c =
     (let cl = lower (strip c) in
      (if contains (ustr ''annual'') cl \<and> contains (ustr ''wage'') cl then [c] else []) @
      (if cl \<in> {ustr ''annual wages'', ustr ''annual_wages''} then [c] else []))"

definition wage_col_candidates :: "ustring list \<Rightarrow> ustring list" where
  "wage_col_candidates cols = concat (map wage_col_candidate cols)"

text \<open>The loop over \<open>df_list\<close>, which stops at the first table with both kinds of column.\<close>

fun wages_table_search :: "dataframe list \<Rightarrow> (dataframe \<times> ustring) option" where
  "wages_table_search [] = None"
| "wages_table_search (df # df_list) =
     (if filter is_club_column (columns df) = [] then wages_table_search df_list
      else (case wage_col_candidates (columns df) of
              [] \<Rightarrow> wages_table_search df_list
            | best_col # others \<Rightarrow> Some (df, best_col)))"

definition no_wages_table :: error where
  "no_wages_table = RuntimeError ''Could not find a wages table with an annual wages column''"

definition find_wages_table :: "dataframe list \<Rightarrow> error + dataframe \<times> ustring" where
  "find_wages_table df_list =
     (case wages_table_search df_list of
        None \<Rightarrow> Inl no_wages_table
      | Some best \<Rightarrow> Inr best)"

text \<open>
  The two conditions in the words of the specification: a column named squad, club or
  team, and a column whose name has both \<^verbatim>\<open>annual\<close> and \<^verbatim>\<open>wage\<close> in it or is exactly
  \<^verbatim>\<open>annual wages\<close>; names are compared trimmed and in lower case, as the code does.
\<close>

definition is_annual_wages_column :: "ustring \<Rightarrow> bool" where
  "is_annual_wages_column c \<longleftrightarrow>
     (contains (ustr ''annual'') (lower (strip c)) \<and> contains (ustr ''wage'') (lower (strip c)))
     \<or> lower (strip c) = ustr ''annual wages''"

definition qualifies :: "dataframe \<Rightarrow> bool" where
  "qualifies df \<longleftrightarrow>
     list_ex is_club_column (columns df) \<and> list_ex is_annual_wages_column (columns df)"

section \<open>The wage scraper: the main loop\<close>

text \<open>
  The files the run writes, and the state of the loop: the two lists and the output
  directory, a map from paths to what was written there last.
\<close>

datatype csv_file =
    WagesCsv dataframe
  | RunLog "(ustring \<times> nat \<times> ustring) list"
  | FailureReport "(ustring \<times> string) list"

record run =
  results :: "(ustring \<times> nat \<times> ustring) list"
  failures :: "(ustring \<times> string) list"
  files :: "ustring \<rightharpoonup> csv_file"

fun message :: "error \<Rightarrow> string" where
  "message (ValueError msg) = msg"
| "message (RuntimeError msg) = msg"

definition slash :: uchar where "slash = 47"
definition underscore :: uchar where "underscore = 95"

text \<open>\<^verbatim>\<open>os.path.join(a, b)\<close> of \<^verbatim>\<open>posixpath\<close>.\<close>

definition path_join :: "ustring \<Rightarrow> ustring \<Rightarrow> ustring" where
  "path_join a b =
     (if starts_with [slash] b then b
      else if a = [] \<or> last a = slash then a @ b
      else a @ [slash] @ b)"

definition wages_file :: "ustring \<Rightarrow> ustring \<Rightarrow> ustring" where
  "wages_file outdir s =
     path_join outdir (ustr ''wages_'' @ replace_char hyphen underscore s @ ustr ''.csv'')"

text \<open>
  One pass of the loop body. What \<open>fetch_fbref_wages_for_season\<close> gives for a season
  depends on the network and the page, so it is the parameter \<open>fetch\<close>: the table, or
  the exception that the \<^verbatim>\<open>except Exception\<close> clause catches. Writing a file is taken to
  succeed.
\<close>

definition scrape_season :: "(ustring \<Rightarrow> error + dataframe) \<Rightarrow> ustring \<Rightarrow> run \<Rightarrow> ustring \<Rightarrow> run" where
  "scrape_season fetch outdir st s =
     (case fetch s of
        Inr df \<Rightarrow>
          (let outfile = wages_file outdir s in
           st\<lparr>files := (files st)(outfile \<mapsto> WagesCsv df),
              results := results st @ [(s, length (rows df), outfile)]\<rparr>)
      | Inl e \<Rightarrow> st\<lparr>failures := failures st @ [(s, message e)]\<rparr>)"

fun scrape_seasons :: "(ustring \<Rightarrow> error + dataframe) \<Rightarrow> ustring \<Rightarrow> ustring list \<Rightarrow> run \<Rightarrow> run" where
  "scrape_seasons fetch outdir [] st = st"
| "scrape_seasons fetch outdir (s # seasons) st =
     scrape_seasons fetch outdir seasons (scrape_season fetch outdir st s)"

definition log_path :: "ustring \<Rightarrow> ustring" where
  "log_path outdir = path_join outdir (ustr ''run_log.csv'')"

definition fail_path :: "ustring \<Rightarrow> ustring" where
  "fail_path outdir = path_join outdir (ustr ''failures.csv'')"

text \<open>The loop and the two reports after it, from the files found in the directory.\<close>

definition run_seasons ::
  "(ustring \<Rightarrow> error + dataframe) \<Rightarrow> ustring \<Rightarrow> (ustring \<rightharpoonup> csv_file) \<Rightarrow> ustring list \<Rightarrow> run" where
  "run_seasons fetch outdir disk seasons =
     (let st = scrape_seasons fetch outdir seasons \<lparr>results = [], failures = [], files = disk\<rparr>;
          st = st\<lparr>files := (files st)(log_path outdir \<mapsto> RunLog (results st))\<rparr>;
          st = st\<lparr>files := (files st)(fail_path outdir \<mapsto> FailureReport (failures st))\<rparr>
      in st)"

definition main ::
  "(ustring \<Rightarrow> error + dataframe) \<Rightarrow> ustring \<Rightarrow> ustring \<Rightarrow> ustring \<Rightarrow> (ustring \<rightharpoonup> csv_file) \<Rightarrow> error + run" where
  "main fetch start end outdir disk =
     (case make_season_list start end of
        Inl e \<Rightarrow> Inl e
      | Inr seasons \<Rightarrow> Inr (run_seasons fetch outdir disk seasons))"

text \<open>The entry each season leaves, by the outcome of its fetch.\<close>

definition success_entry ::
  "(ustring \<Rightarrow> error + dataframe) \<Rightarrow> ustring \<Rightarrow> ustring \<Rightarrow> (ustring \<times> nat \<times> ustring) option" where
  "success_entry fetch outdir s =
     (case fetch s of
        Inr df \<Rightarrow> Some (s, length (rows df), wages_file outdir s)
      | Inl e \<Rightarrow> None)"

definition failure_entry :: "(ustring \<Rightarrow> error + dataframe) \<Rightarrow> ustring \<Rightarrow> (ustring \<times> string) option" where
  "failure_entry fetch s =
     (case fetch s of
        Inr df \<Rightarrow> None
      | Inl e \<Rightarrow> Some (s, message e))"

text \<open>Two tables for the examples: league standings, and the wages of the clubs.\<close>

definition standings_table :: dataframe where
  "standings_table = \<lparr>columns = [ustr ''Rk'', ustr ''Squad'', ustr ''Pts''], rows = []\<rparr>"

definition wages_table :: dataframe where
  "wages_table =
     \<lparr>columns = [ustr ''Rk'', ustr ''Squad'', ustr ''Weekly Wages'', ustr ''Annual Wages''],
      rows = [[Str (ustr ''1''), Str (ustr ''Arsenal''), NaN, NaN]]\<rparr>"

text \<open>A fetch for the examples: the page of one season has no wages table.\<close>

definition example_fetch :: "ustring \<Rightarrow> error + dataframe" where
  "example_fetch s = (if s = ustr ''2014-2015'' then Inl no_wages_table else Inr wages_table)"

section \<open>Data preparation: the column names\<close>

text \<open>
  \<^verbatim>\<open>df.rename(columns={old: new})\<close> on the list of column labels: pandas maps every
  label through the dictionary, so every column labelled \<open>old\<close> gets the label \<open>new\<close>.
\<close>

definition rename_column :: "ustring \<Rightarrow> ustring \<Rightarrow> ustring list \<Rightarrow> ustring list" where
  "rename_column old new cols = map (\<lambda>c. if c = old then new else c) cols"

definition club_like :: "ustring \<Rightarrow> bool" where
  "club_like c \<longleftrightarrow> contains (ustr ''club'') (lower c)"

definition prom_like :: "ustring \<Rightarrow> bool" where
  "prom_like c \<longleftrightarrow> contains (ustr ''promot'') (lower c)"

definition spend_like :: "ustring \<Rightarrow> bool" where
  "spend_like c \<longleftrightarrow>
     contains (ustr ''transfer'') (lower c) \<and>
     (contains (ustr ''spend'') (lower c) \<or> contains (ustr ''expend'') (lower c))"

definition standardise_club :: "ustring list \<Rightarrow> ustring list" where
  "standardise_club cols =
     (if ustr ''club'' \<notin> set cols then
        (case filter club_like cols of
           [] \<Rightarrow> cols
         | first # others \<Rightarrow> rename_column first (ustr ''club'') cols)
      else cols)"

definition standardise_promoted :: "ustring list \<Rightarrow> ustring list" where
  "standardise_promoted cols =
     (case filter prom_like cols of
        [] \<Rightarrow> cols
      | first # others \<Rightarrow>
          if first \<noteq> ustr ''promoted'' then rename_column first (ustr ''promoted'') cols
          else cols)"

definition standardise_spend :: "ustring list \<Rightarrow> ustring list" where
  "standardise_spend cols =
     (case filter spend_like cols of
        [] \<Rightarrow> cols
      | first # others \<Rightarrow>
          if first \<noteq> ustr ''gross_transfer_spend_gbp_m''
          then rename_column first (ustr ''gross_transfer_spend_gbp_m'') cols
          else cols)"

text \<open>The three steps of the loop body, in the order of the script.\<close>

definition standardise_columns :: "ustring list \<Rightarrow> ustring list" where
  "standardise_columns cols = standardise_spend (standardise_promoted (standardise_club cols))"

text \<open>
  The column labels of a sheet as they reach those steps: trimmed, and with the column
  \<^verbatim>\<open>season\<close> that the assignment \<^verbatim>\<open>df["season"] = ...\<close> appends unless the sheet has one.
\<close>

definition sheet_columns :: "ustring list \<Rightarrow> ustring list" where
  "sheet_columns header =
     (let cols = map strip header;
          cols = (if ustr ''season'' \<in> set cols then cols else cols @ [ustr ''season''])
      in standardise_columns cols)"

text \<open>
  The rule in the words of the specification: the first column in column order that
  matches gets the canonical name; every other column keeps its name, later matches
  too; without a match nothing changes.
\<close>

fun rename_first :: "(ustring \<Rightarrow> bool) \<Rightarrow> ustring \<Rightarrow> ustring list \<Rightarrow> ustring list" where
  "rename_first P new [] = []"
| "rename_first P new (c # cols) = (if P c then new # cols else c # rename_first P new cols)"

text \<open>
  The rule as the steps apply it to any list of names: the name of the first column in
  column order that matches is replaced by the canonical name wherever it occurs; every
  column with another name keeps it; without a match nothing changes.
\<close>

definition rename_as_first :: "(ustring \<Rightarrow> bool) \<Rightarrow> ustring \<Rightarrow> ustring list \<Rightarrow> ustring list" where
  "rename_as_first P new cols =
     (case find P cols of
        None \<Rightarrow> cols
      | Some first \<Rightarrow> map (\<lambda>c. if c = first then new else c) cols)"

section \<open>The wage scraper: money\<close>

text \<open>
  \<^verbatim>\<open>\d+(\.\d+)?\<close> at the start of a string: the text it matches and the rest. Both
  repetitions are greedy; what follows them in the two patterns below (white space,
  \<^verbatim>\<open>m\<close>, \<^verbatim>\<open>M\<close> or the end) is never a digit, so a shorter match cannot succeed where
  the longest fails.
\<close>

definition number_prefix :: "ustring \<Rightarrow> (ustring \<times> ustring) option" where
  "number_prefix s =
     (let ds = takeWhile isdecimal s; r = dropWhile isdecimal s in
      if ds = [] then None
      else (case r of
              [] \<Rightarrow> Some (ds, [])
            | c # r' \<Rightarrow>
                if c = full_stop \<and> takeWhile isdecimal r' \<noteq> []
                then Some (ds @ [c] @ takeWhile isdecimal r', dropWhile isdecimal r')
                else Some (ds, r)))"

definition small_m :: uchar where "small_m = 109"
definition capital_m :: uchar where "capital_m = 77"

text \<open>\<^verbatim>\<open>re.match(r"^(\d+(\.\d+)?)\s*[mM]$", s)\<close>: group 1 when the string matches.\<close>

definition millions_match :: "ustring \<Rightarrow> ustring option" where
  "millions_match s =
     (case number_prefix s of
        None \<Rightarrow> None
      | Some (g, r) \<Rightarrow>
          (case dropWhile isspace r of
             [] \<Rightarrow> None
           | c # r' \<Rightarrow> if (c = small_m \<or> c = capital_m) \<and> at_end r' then Some g else None))"

text \<open>\<^verbatim>\<open>re.match(r"^\d+(\.\d+)?$", s)\<close>.\<close>

definition plain_match :: "ustring \<Rightarrow> bool" where
  "plain_match s = (case number_prefix s of None \<Rightarrow> False | Some (g, r) \<Rightarrow> at_end r)"

text \<open>
  A value of Python's \<^verbatim>\<open>float\<close> (IEEE 754 binary64) that is not negative: a finite
  value, given exactly as a rational, or \<^verbatim>\<open>inf\<close>.
\<close>

datatype pyfloat = Finite rat | PosInf

fun bit_length :: "nat \<Rightarrow> nat" where
  "bit_length n = (if n = 0 then 0 else Suc (bit_length (n div 2)))"

declare bit_length.simps [simp del]

text \<open>The largest \<open>e\<close> with \<open>2 ^ e \<le> num / den\<close>, for positive \<open>num\<close> and \<open>den\<close>.\<close>

definition floor_log2 :: "nat \<Rightarrow> nat \<Rightarrow> int" where
  "floor_log2 num den =
     (let d = int (bit_length num) - int (bit_length den) in
      if (if 0 \<le> d then den * 2 ^ nat d \<le> num else den \<le> num * 2 ^ nat (- d)) then d
      else d - 1)"

text \<open>The integer nearest to \<open>n / d\<close>, the even one of two that are equally near.\<close>

definition round_half_even :: "nat \<Rightarrow> nat \<Rightarrow> nat" where
  "round_half_even n d =
     (let q = n div d; r = n mod d in
      if 2 * r < d then q
      else if d < 2 * r then q + 1
      else if even q then q else q + 1)"

text \<open>
  Rounding the fraction \<open>num / den\<close> to binary64, to nearest and ties to even: a
  significand \<open>m\<close> of at most 53 bits and an exponent \<open>p\<close> of at least \<open>-1074\<close>, for the
  value \<open>m * 2 ^ p\<close>; \<open>None\<close> when the fraction rounds beyond the largest finite float,
  which gives \<^verbatim>\<open>inf\<close>.
\<close>

definition round_binary64 :: "nat \<Rightarrow> nat \<Rightarrow> (nat \<times> int) option" where
  "round_binary64 num den =
     (if num = 0 then Some (0, 0)
      else
        (let e = floor_log2 num den;
             p = max (e - 52) (- 1074);
             m = (if 0 \<le> p then round_half_even num (den * 2 ^ nat p)
                  else round_half_even (num * 2 ^ nat (- p)) den)
         in if 0 \<le> p \<and> 2 ^ 1024 \<le> m * 2 ^ nat p then None else Some (m, p)))"

definition binary_value :: "nat \<times> int \<Rightarrow> rat" where
  "binary_value b =
     (if 0 \<le> snd b then of_nat (fst b) * 2 ^ nat (snd b)
      else of_nat (fst b) / 2 ^ nat (- snd b))"

definition as_pyfloat :: "(nat \<times> int) option \<Rightarrow> pyfloat" where
  "as_pyfloat x = (case x of None \<Rightarrow> PosInf | Some b \<Rightarrow> Finite (binary_value b))"

text \<open>
  \<^verbatim>\<open>float(g)\<close> for digits with an optional fraction, white space around them ignored:
  the float nearest to the decimal numeral, with its significand and exponent.
\<close>

definition py_float :: "ustring \<Rightarrow> (nat \<times> int) option" where
  "py_float g =
     (let t = strip g;
          whole = takeWhile (\<lambda>c. c \<noteq> full_stop) t;
          fraction = drop 1 (dropWhile (\<lambda>c. c \<noteq> full_stop) t)
      in round_binary64 (nat (decimal_value (whole @ fraction))) (10 ^ length fraction))"

text \<open>
  \<^verbatim>\<open>x * k\<close> for a float \<open>x\<close> and a positive integer \<open>k\<close> that is a float itself, as
  \<^verbatim>\<open>1_000_000\<close> is: the exact product, rounded; \<^verbatim>\<open>inf\<close> stays \<^verbatim>\<open>inf\<close>.
\<close>

definition float_times :: "(nat \<times> int) option \<Rightarrow> nat \<Rightarrow> (nat \<times> int) option" where
  "float_times x k =
     (case x of
        None \<Rightarrow> None
      | Some (m, p) \<Rightarrow>
          if 0 \<le> p then round_binary64 (m * k * 2 ^ nat p) 1
          else round_binary64 (m * k) (2 ^ nat (- p)))"

text \<open>
  The cell is \<^verbatim>\<open>None\<close>, \<^verbatim>\<open>NaN\<close> or a string (\<^verbatim>\<open>str(value)\<close> of a string is the string);
  the result is \<^verbatim>\<open>None\<close> or a float.
\<close>

definition parse_money_to_gbp :: "pyobj \<Rightarrow> pyfloat option" where
  "parse_money_to_gbp v =
     (case v of
        PyNone \<Rightarrow> None
      | NaN \<Rightarrow> None
      | Str s0 \<Rightarrow>
          (let s = strip s0 in
           if s = [] \<or> lower s \<in> {ustr ''nan'', ustr ''none''} then None
           else
             (let s = strip (remove_char comma (remove_char pound s)) in
              case millions_match s of
                Some g \<Rightarrow> Some (as_pyfloat (float_times (py_float g) 1000000))
              | None \<Rightarrow> if plain_match s then Some (as_pyfloat (py_float s)) else None)))"

text \<open>
  The forms in the words of the specification. A number is a run of digits, or two runs
  with a full stop between them. An amount in millions is a number, white space or
  none, and a final \<^verbatim>\<open>m\<close> or \<^verbatim>\<open>M\<close>; its number is what is left of it without the final
  letter and the white space before it.
\<close>

definition is_number :: "ustring \<Rightarrow> bool" where
  "is_number n \<longleftrightarrow>
     (let whole = takeWhile (\<lambda>c. c \<noteq> full_stop) n;
          rest = dropWhile (\<lambda>c. c \<noteq> full_stop) n
      in whole \<noteq> [] \<and> list_all isdecimal whole \<and>
         (rest = [] \<or> tl rest \<noteq> [] \<and> list_all isdecimal (tl rest)))"

definition rstrip :: "ustring \<Rightarrow> ustring" where
  "rstrip s = rev (dropWhile isspace (rev s))"

definition millions_number :: "ustring \<Rightarrow> ustring" where
  "millions_number t = rstrip (butlast t)"

definition is_millions :: "ustring \<Rightarrow> bool" where
  "is_millions t \<longleftrightarrow>
     t \<noteq> [] \<and> (last t = small_m \<or> last t = capital_m) \<and> is_number (millions_number t)"

text \<open>The text left of a cell after trimming and without pound signs and commas.\<close>

definition money_text :: "ustring \<Rightarrow> ustring" where
  "money_text s0 = strip (remove_char comma (remove_char pound (strip s0)))"

section \<open>Evaluating the string functions\<close>

lemma todecimal_ascii: "48 \<le> c \<Longrightarrow> c \<le> 57 \<Longrightarrow> todecimal c = Some (c - 48)"
  by (simp add: todecimal_def decimal_zeros_def)

lemma todecimal_below: "c < 48 \<Longrightarrow> todecimal c = None"
  by (simp add: todecimal_def decimal_zeros_def)

lemma todecimal_between: "57 < c \<Longrightarrow> c < 1632 \<Longrightarrow> todecimal c = None"
  by (simp add: todecimal_def decimal_zeros_def)

lemmas eval_simps = ustr_def todecimal_ascii todecimal_below todecimal_between isdecimal_def
  hyphen_def newline_def at_end_def

section \<open>Facts about the season range\<close>

lemma digit_groups_match_Some_iff:
  "digit_groups_match n m s = Some (g1, g2) \<longleftrightarrow>
     length g1 = n \<and> list_all isdecimal g1 \<and> length g2 = m \<and> list_all isdecimal g2 \<and>
     (s = g1 @ [hyphen] @ g2 \<or> s = g1 @ [hyphen] @ g2 @ [newline])"
  (is "?lhs \<longleftrightarrow> ?rhs")
proof
  assume ?lhs
  define r2 where "r2 = tl (drop n s)"
  define r3 where "r3 = drop m r2"
  from \<open>?lhs\<close> have g1: "g1 = take n s" "length g1 = n" "list_all isdecimal g1"
    and r1: "drop n s \<noteq> []" "hd (drop n s) = hyphen"
    and g2: "g2 = take m r2" "length g2 = m" "list_all isdecimal g2"
    and r3: "at_end r3"
    by (auto simp: digit_groups_match_def Let_def r2_def r3_def split: if_splits list.splits)
  have "s = take n s @ drop n s" by simp
  also have "drop n s = hyphen # r2" using r1 by (cases "drop n s") (auto simp: r2_def)
  also have "r2 = g2 @ r3" using g2 by (simp add: r3_def)
  finally have eq: "s = g1 @ [hyphen] @ g2 @ r3" using g1 by simp
  from r3 have "r3 = [] \<or> r3 = [newline]" by (simp add: at_end_def)
  with eq have "s = g1 @ [hyphen] @ g2 \<or> s = g1 @ [hyphen] @ g2 @ [newline]" by auto
  with g1(2,3) g2(2,3) show ?rhs by blast
next
  assume ?rhs
  then show ?lhs
    by (auto simp: digit_groups_match_def Let_def at_end_def)
qed

lemma season_match_Some_iff:
  "season_match s = Some (g1, g2) \<longleftrightarrow>
     length g1 = 4 \<and> list_all isdecimal g1 \<and> length g2 = 4 \<and> list_all isdecimal g2 \<and>
     (s = g1 @ [hyphen] @ g2 \<or> s = g1 @ [hyphen] @ g2 @ [newline])"
  by (simp add: season_match_def digit_groups_match_Some_iff)

lemma season_match_groups:
  "season_match s = Some sm \<Longrightarrow> fst sm \<noteq> [] \<and> list_all isdecimal (fst sm)"
  using season_match_Some_iff [of s "fst sm" "snd sm"] by auto

lemma py_int_group:
  "season_match s = Some sm \<Longrightarrow> py_int (fst sm) = Inr (decimal_value (fst sm))"
  using season_match_groups [of s sm] by (simp add: py_int_def)

lemma season_loop_eq:
  "season_loop y stop acc = acc @ map season_str [y..stop - 1]"
proof (induction y stop acc rule: season_loop.induct)
  case (1 y stop seasons)
  show ?case
  proof (cases "y < stop")
    case True
    then have "[y..stop - 1] = y # [y + 1..stop - 1]"
      by (simp add: upto_rec1)
    with True "1" show ?thesis
      by (simp add: season_loop.simps [of y])
  next
    case False
    then show ?thesis
      by (simp add: season_loop.simps [of y])
  qed
qed

lemma make_season_list_matched:
  assumes "season_match s = Some sm" and "season_match e = Some em"
  shows "make_season_list s e =
           (if decimal_value (fst em) < decimal_value (fst sm) then Inl range_error
            else Inr (map season_str [decimal_value (fst sm)..decimal_value (fst em)]))"
  using assms py_int_group [OF assms(1)] py_int_group [OF assms(2)]
  by (simp add: make_season_list_def season_loop_eq)


text \<open>
  C1, as the code has it. When both bounds match the pattern and the end year does not
  precede the start year, \<open>make_season_list\<close> returns the seasons of all the years from
  the start year to the end year, in order and with both end years included: one season
  for each year, the first that of the start year and the last that of the end year. The
  years are the first groups of the bounds; each season is written from its year alone,
  the year after it following the hyphen. So the first season is the start bound itself
  exactly when that bound is the season of its own first year, and likewise the last
  season and the end bound.
\<close>

theorem make_season_list_inclusive:
  assumes "season_match s = Some sm" and "season_match e = Some em"
    and "decimal_value (fst sm) \<le> decimal_value (fst em)"
  shows "\<exists>seasons. make_season_list s e = Inr seasons \<and>
           seasons = map season_str [decimal_value (fst sm)..decimal_value (fst em)] \<and>
           length seasons = nat (decimal_value (fst em) - decimal_value (fst sm) + 1) \<and>
           hd seasons = season_str (decimal_value (fst sm)) \<and>
           last seasons = season_str (decimal_value (fst em)) \<and>
           (hd seasons = s \<longleftrightarrow> s = season_str (decimal_value (fst sm))) \<and>
           (last seasons = e \<longleftrightarrow> e = season_str (decimal_value (fst em)))"
proof -
  let ?a = "decimal_value (fst sm)" and ?b = "decimal_value (fst em)"
  have res: "make_season_list s e = Inr (map season_str [?a..?b])"
    using make_season_list_matched [OF assms(1,2)] assms(3) by simp
  have first: "[?a..?b] = ?a # [?a + 1..?b]"
    using assms(3) by (simp add: upto_rec1)
  have final: "[?a..?b] = [?a..?b - 1] @ [?b]"
    using assms(3) by (simp add: upto_rec2)
  have h: "hd (map season_str [?a..?b]) = season_str ?a"
    by (subst first) simp
  have l: "last (map season_str [?a..?b]) = season_str ?b"
    by (subst final) simp
  have n: "length (map season_str [?a..?b]) = nat (?b - ?a + 1)"
    by simp
  from h have hs: "hd (map season_str [?a..?b]) = s \<longleftrightarrow> s = season_str ?a"
    by auto
  from l have ls: "last (map season_str [?a..?b]) = e \<longleftrightarrow> e = season_str ?b"
    by auto
  from res h l n hs ls show ?thesis
    by blast
qed

theorem make_season_list_inclusive_witness:
  "make_season_list (ustr ''2013-2014'') (ustr ''2015-2016'') =
     Inr [ustr ''2013-2014'', ustr ''2014-2015'', ustr ''2015-2016'']"
proof -
  have s: "season_match (ustr ''2013-2014'') = Some (ustr ''2013'', ustr ''2014'')"
    by (simp add: season_match_def digit_groups_match_def eval_simps)
  have e: "season_match (ustr ''2015-2016'') = Some (ustr ''2015'', ustr ''2016'')"
    by (simp add: season_match_def digit_groups_match_def eval_simps)
  have ys: "decimal_value (ustr ''2013'') = 2013"
    by (simp add: decimal_value_def eval_simps)
  have ye: "decimal_value (ustr ''2015'') = 2015"
    by (simp add: decimal_value_def eval_simps)
  have le: "decimal_value (fst (ustr ''2013'', ustr ''2014''))
              \<le> decimal_value (fst (ustr ''2015'', ustr ''2016''))"
    by (simp add: ys ye)
  have years: "[2013..2015 :: int] = [2013, 2014, 2015]"
    by (simp add: upto.simps)
  have strs: "season_str 2013 = ustr ''2013-2014''" "season_str 2014 = ustr ''2014-2015''"
    "season_str 2015 = ustr ''2015-2016''"
    by (simp_all add: season_str_def str_int_def str_nat.simps eval_simps)
  from make_season_list_inclusive [OF s e le] obtain seasons
    where "make_season_list (ustr ''2013-2014'') (ustr ''2015-2016'') = Inr seasons"
      and "seasons = map season_str
        [decimal_value (fst (ustr ''2013'', ustr ''2014''))..
         decimal_value (fst (ustr ''2015'', ustr ''2016''))]"
    by blast
  then show ?thesis
    by (simp add: ys ye years strs)
qed

text \<open>
  C1, as stated, fails: the bounds \<^verbatim>\<open>2013-2099\<close> and \<^verbatim>\<open>2014-1066\<close> match the pattern and
  the end year does not precede the start year, but neither bound is in the list that
  is returned; nor is a bound with a leading zero, which comes back without it.
\<close>

theorem make_season_list_bounds_not_returned:
  "season_match (ustr ''2013-2099'') = Some (ustr ''2013'', ustr ''2099'') \<and>
   season_match (ustr ''2014-1066'') = Some (ustr ''2014'', ustr ''1066'') \<and>
   make_season_list (ustr ''2013-2099'') (ustr ''2014-1066'') =
     Inr [ustr ''2013-2014'', ustr ''2014-2015''] \<and>
   ustr ''2013-2099'' \<notin> set [ustr ''2013-2014'', ustr ''2014-2015''] \<and>
   ustr ''2014-1066'' \<notin> set [ustr ''2013-2014'', ustr ''2014-2015''] \<and>
   make_season_list (ustr ''0009-0010'') (ustr ''0010-0011'') =
     Inr [ustr ''9-10'', ustr ''10-11'']"
proof -
  have s: "season_match (ustr ''2013-2099'') = Some (ustr ''2013'', ustr ''2099'')"
    and e: "season_match (ustr ''2014-1066'') = Some (ustr ''2014'', ustr ''1066'')"
    and s0: "season_match (ustr ''0009-0010'') = Some (ustr ''0009'', ustr ''0010'')"
    and e0: "season_match (ustr ''0010-0011'') = Some (ustr ''0010'', ustr ''0011'')"
    by (simp_all add: season_match_def digit_groups_match_def eval_simps)
  have years: "decimal_value (ustr ''2013'') = 2013" "decimal_value (ustr ''2014'') = 2014"
    "decimal_value (ustr ''0009'') = 9" "decimal_value (ustr ''0010'') = 10"
    by (simp_all add: decimal_value_def eval_simps)
  have ranges: "[2013..2014 :: int] = [2013, 2014]" "[9..10 :: int] = [9, 10]"
    by (simp_all add: upto.simps)
  have strs: "season_str 2013 = ustr ''2013-2014''" "season_str 2014 = ustr ''2014-2015''"
    "season_str 9 = ustr ''9-10''" "season_str 10 = ustr ''10-11''"
    by (simp_all add: season_str_def str_int_def str_nat.simps eval_simps)
  have one: "make_season_list (ustr ''2013-2099'') (ustr ''2014-1066'') =
      Inr [ustr ''2013-2014'', ustr ''2014-2015'']"
    using make_season_list_matched [OF s e] by (simp add: years ranges strs)
  have two: "make_season_list (ustr ''0009-0010'') (ustr ''0010-0011'') =
      Inr [ustr ''9-10'', ustr ''10-11'']"
    using make_season_list_matched [OF s0 e0] by (simp add: years ranges strs)
  have out: "ustr ''2013-2099'' \<notin> set [ustr ''2013-2014'', ustr ''2014-2015'']"
    "ustr ''2014-1066'' \<notin> set [ustr ''2013-2014'', ustr ''2014-2015'']"
    by (simp_all add: ustr_def)
  from s e one two out show ?thesis
    by blast
qed

text \<open>
  C4. \<open>make_season_list\<close> raises the format error exactly when one of the two bounds does
  not match the pattern (\<open>season_match_Some_iff\<close> says which strings match: four decimal
  digits, a hyphen and four decimal digits, where \<^verbatim>\<open>$\<close> also accepts one newline after
  them). When both match, it raises the range error exactly when the end year is
  smaller than the start year, and returns a list otherwise.
\<close>

theorem make_season_list_errors:
  "(make_season_list s e = Inl format_error \<longleftrightarrow>
      season_match s = None \<or> season_match e = None) \<and>
   (\<forall>sm em. season_match s = Some sm \<and> season_match e = Some em \<longrightarrow>
      (make_season_list s e = Inl range_error \<longleftrightarrow>
         decimal_value (fst em) < decimal_value (fst sm)) \<and>
      (\<not> decimal_value (fst em) < decimal_value (fst sm) \<longrightarrow>
         (\<exists>seasons. make_season_list s e = Inr seasons)))"
proof -
  have differ: "range_error \<noteq> format_error"
    by (simp add: range_error_def format_error_def)
  have unmatched: "season_match s = None \<or> season_match e = None \<Longrightarrow>
      make_season_list s e = Inl format_error"
    by (auto simp: make_season_list_def split: option.splits)
  have matched: "make_season_list s e \<noteq> Inl format_error"
    if "season_match s = Some sm" "season_match e = Some em" for sm em
    using make_season_list_matched [OF that] differ by simp
  have "make_season_list s e = Inl format_error \<longleftrightarrow>
      season_match s = None \<or> season_match e = None"
    using unmatched matched by (cases "season_match s"; cases "season_match e") auto
  moreover have "(make_season_list s e = Inl range_error \<longleftrightarrow>
         decimal_value (fst em) < decimal_value (fst sm)) \<and>
      (\<not> decimal_value (fst em) < decimal_value (fst sm) \<longrightarrow>
         (\<exists>seasons. make_season_list s e = Inr seasons))"
    if "season_match s = Some sm" "season_match e = Some em" for sm em
    using make_season_list_matched [OF that] by simp
  ultimately show ?thesis by blast
qed

theorem make_season_list_errors_witness:
  "season_match (ustr ''13-14'') = None \<and>
   make_season_list (ustr ''13-14'') (ustr ''2015-2016'') = Inl format_error \<and>
   season_match (ustr ''2015-2016'') = Some (ustr ''2015'', ustr ''2016'') \<and>
   season_match (ustr ''2013-2014'') = Some (ustr ''2013'', ustr ''2014'') \<and>
   make_season_list (ustr ''2015-2016'') (ustr ''2013-2014'') = Inl range_error \<and>
   (\<exists>seasons. make_season_list (ustr ''2013-2014'') (ustr ''2013-2014'') = Inr seasons)"
proof -
  have bad: "season_match (ustr ''13-14'') = None"
    by (simp add: season_match_def digit_groups_match_def eval_simps)
  have s: "season_match (ustr ''2015-2016'') = Some (ustr ''2015'', ustr ''2016'')"
    by (simp add: season_match_def digit_groups_match_def eval_simps)
  have e: "season_match (ustr ''2013-2014'') = Some (ustr ''2013'', ustr ''2014'')"
    by (simp add: season_match_def digit_groups_match_def eval_simps)
  have ys: "decimal_value (ustr ''2015'') = 2015" and ye: "decimal_value (ustr ''2013'') = 2013"
    by (simp_all add: decimal_value_def eval_simps)
  have "make_season_list (ustr ''13-14'') (ustr ''2015-2016'') = Inl format_error"
    using make_season_list_errors [of "ustr ''13-14''" "ustr ''2015-2016''"] bad by simp
  moreover have "make_season_list (ustr ''2015-2016'') (ustr ''2013-2014'') = Inl range_error"
    using make_season_list_errors [of "ustr ''2015-2016''" "ustr ''2013-2014''"] s e ys ye
    by simp
  moreover have "\<exists>seasons. make_season_list (ustr ''2013-2014'') (ustr ''2013-2014'') = Inr seasons"
    using make_season_list_errors [of "ustr ''2013-2014''" "ustr ''2013-2014''"] e by simp
  ultimately show ?thesis using bad s e by simp
qed


section \<open>Facts about the season label\<close>

lemma normalise_season_value_unmatched:
  "digit_groups_match 2 2 (replace_char en_dash hyphen (strip s)) = None \<Longrightarrow>
     normalise_season_value s = ustr ''20nan-nan''"
  by (simp add: normalise_season_value_def extract_two_digit_groups_def ustr_def hyphen_def)

lemma normalise_season_value_matched:
  "digit_groups_match 2 2 (replace_char en_dash hyphen (strip s)) = Some (g1, g2) \<Longrightarrow>
     normalise_season_value s = ustr ''20'' @ g1 @ [hyphen] @ g2"
  by (simp add: normalise_season_value_def extract_two_digit_groups_def)

lemmas strip_simps = strip_def isspace_def replace_char_def en_dash_def

text \<open>
  C2. The label \<^verbatim>\<open>13-14\<close> becomes \<^verbatim>\<open>2013-14\<close>, as specified. A label already in the
  form \<^verbatim>\<open>2013-14\<close>, and any other label that is not two 2-digit groups, is not passed
  through: \<^verbatim>\<open>str.extract\<close> gives \<^verbatim>\<open>NaN\<close> for its groups, \<^verbatim>\<open>NaN\<close> is not \<^verbatim>\<open>None\<close>,
  and the first branch returns \<^verbatim>\<open>20nan-nan\<close>.
\<close>

theorem normalise_season_value_long_label:
  "normalise_season_value (ustr ''13-14'') = ustr ''2013-14'' \<and>
   normalise_season_value (ustr ''2013-14'') = ustr ''20nan-nan'' \<and>
   normalise_season_value (ustr ''Sheet1'') = ustr ''20nan-nan''"
proof -
  have "digit_groups_match 2 2 (replace_char en_dash hyphen (strip (ustr ''13-14'')))
          = Some (ustr ''13'', ustr ''14'')"
    by (simp add: digit_groups_match_def strip_simps eval_simps)
  then have "normalise_season_value (ustr ''13-14'') = ustr ''2013-14''"
    by (simp add: normalise_season_value_matched) (simp add: eval_simps)
  moreover have "digit_groups_match 2 2 (replace_char en_dash hyphen (strip (ustr ''2013-14''))) = None"
    by (simp add: digit_groups_match_def strip_simps eval_simps)
  then have "normalise_season_value (ustr ''2013-14'') = ustr ''20nan-nan''"
    by (rule normalise_season_value_unmatched)
  moreover have "digit_groups_match 2 2 (replace_char en_dash hyphen (strip (ustr ''Sheet1''))) = None"
    by (simp add: digit_groups_match_def strip_simps eval_simps)
  then have "normalise_season_value (ustr ''Sheet1'') = ustr ''20nan-nan''"
    by (rule normalise_season_value_unmatched)
  ultimately show ?thesis by simp
qed

text \<open>
  C10. Normalising twice is not normalising once: the normalised \<^verbatim>\<open>13-14\<close> is
  \<^verbatim>\<open>2013-14\<close>, which is not two 2-digit groups and so normalises to \<^verbatim>\<open>20nan-nan\<close>.
\<close>

theorem normalise_season_value_twice:
  "normalise_season_value (ustr ''13-14'') = ustr ''2013-14'' \<and>
   normalise_season_value (normalise_season_value (ustr ''13-14'')) = ustr ''20nan-nan'' \<and>
   normalise_season_value (normalise_season_value (ustr ''13-14''))
     \<noteq> normalise_season_value (ustr ''13-14'')"
proof -
  have "digit_groups_match 2 2 (replace_char en_dash hyphen (strip (ustr ''13-14'')))
          = Some (ustr ''13'', ustr ''14'')"
    by (simp add: digit_groups_match_def strip_simps eval_simps)
  then have once: "normalise_season_value (ustr ''13-14'') = ustr ''2013-14''"
    by (simp add: normalise_season_value_matched) (simp add: eval_simps)
  have "digit_groups_match 2 2 (replace_char en_dash hyphen (strip (ustr ''2013-14''))) = None"
    by (simp add: digit_groups_match_def strip_simps eval_simps)
  then have twice: "normalise_season_value (ustr ''2013-14'') = ustr ''20nan-nan''"
    by (rule normalise_season_value_unmatched)
  have "ustr ''20nan-nan'' \<noteq> ustr ''2013-14''"
    by (simp add: ustr_def)
  with once twice show ?thesis by simp
qed

section \<open>Facts about the tables\<close>

lemma astype_int_Inr:
  "astype_int cs = Inr vs \<Longrightarrow> list_all2 (\<lambda>c v. astype_int_cell c = Inr v) cs vs"
proof (induction cs arbitrary: vs)
  case Nil
  then show ?case by simp
next
  case (Cons c cs)
  then show ?case
    by (auto split: sum.splits)
qed

lemma astype_int_Inl:
  "(\<exists>e. astype_int cs = Inl e) \<longleftrightarrow> (\<exists>c\<in>set cs. \<exists>e. astype_int_cell c = Inl e)"
  by (induction cs) (auto split: sum.splits)

lemma astype_int_cell_fillna:
  "astype_int_cell (fillna (Num 0) c) = Inr v \<Longrightarrow> isna c \<Longrightarrow> v = IntV 0"
  by (simp add: fillna_def isna_def int64_of_def toward_zero_def)

lemma astype_int_cell_IntV:
  "astype_int_cell c = Inr v \<Longrightarrow> \<exists>i. v = IntV i"
  by (cases c) auto

lemma set_promoted_nth:
  "length values = length df \<Longrightarrow> i < length df \<Longrightarrow>
     set_promoted df values ! i = (df ! i)\<lparr>promoted := values ! i\<rparr>"
  by (simp add: set_promoted_def)

lemma length_set_promoted:
  "length values = length df \<Longrightarrow> length (set_promoted df values) = length df"
  by (simp add: set_promoted_def)

lemma promoted_pipeline:
  assumes vs: "astype_int (map (\<lambda>r. fillna (Num 0) (to_numeric parse (promoted r))) df0) = Inr vs"
    and tbl: "length tbl = length df0"
  shows "promoted_coerced parse df0 (set_promoted tbl vs)"
proof -
  let ?cs = "map (\<lambda>r. fillna (Num 0) (to_numeric parse (promoted r))) df0"
  from vs have all2: "list_all2 (\<lambda>c v. astype_int_cell c = Inr v) ?cs vs"
    by (rule astype_int_Inr)
  then have len: "length vs = length df0"
    by (auto dest: list_all2_lengthD)
  have cell: "astype_int_cell (fillna (Num 0) (to_numeric parse (promoted (df0 ! i)))) = Inr (vs ! i)"
    if "i < length df0" for i
    using list_all2_nthD [OF all2, of i] that by simp
  have prom: "promoted (set_promoted tbl vs ! i) = vs ! i" if "i < length df0" for i
    using that len tbl by (simp add: set_promoted_nth)
  have zero: "promoted (set_promoted tbl vs ! i) = IntV 0"
    if "i < length df0" "isna (to_numeric parse (promoted (df0 ! i)))" for i
    using astype_int_cell_fillna [OF cell [OF that(1)] that(2)] prom [OF that(1)] by simp
  have ints: "\<exists>n. promoted (set_promoted tbl vs ! i) = IntV n" if "i < length df0" for i
    using astype_int_cell_IntV [OF cell [OF that]] prom [OF that] by simp
  have "length (set_promoted tbl vs) = length df0"
    using len tbl by (simp add: length_set_promoted)
  with zero ints show ?thesis
    unfolding promoted_coerced_def by blast
qed

lemma analysis_coerce_Inr:
  assumes "analysis_coerce parse df0 = Inr df"
  shows "promoted_coerced parse df0 df"
proof -
  define tbl where "tbl = map (promoted_update (to_numeric parse))
      (map (gross_transfer_spend_gbp_m_update (to_numeric parse))
        (map (points_total_update (to_numeric parse))
          (map (league_position_update (to_numeric parse))
            (map (total_wage_bill_gbp_m_update (to_numeric parse)) df0))))"
  have cs: "map (\<lambda>r. fillna (Num 0) (promoted r)) tbl =
      map (\<lambda>r. fillna (Num 0) (to_numeric parse (promoted r))) df0"
    by (simp add: tbl_def comp_def)
  from assms obtain vs where
    "astype_int (map (\<lambda>r. fillna (Num 0) (to_numeric parse (promoted r))) df0) = Inr vs"
    and "df = set_promoted tbl vs"
    unfolding analysis_coerce_def Let_def tbl_def [symmetric] cs
    by (auto split: sum.splits)
  moreover have "length tbl = length df0"
    by (simp add: tbl_def)
  ultimately show ?thesis
    using promoted_pipeline by blast
qed

lemma regression_coerce_Inr:
  assumes "regression_coerce parse df0 = Inr df"
  shows "promoted_coerced parse df0 df"
proof -
  define tbl where "tbl = map (gross_transfer_spend_gbp_m_update (fillna (Num 0)))
      (map (gross_transfer_spend_gbp_m_update (to_numeric parse))
        (map (total_wage_bill_gbp_m_update (to_numeric parse))
          (map (league_position_update (to_numeric parse))
            (map (points_total_update (to_numeric parse)) df0))))"
  have cs: "map (\<lambda>r. fillna (Num 0) (to_numeric parse (promoted r))) tbl =
      map (\<lambda>r. fillna (Num 0) (to_numeric parse (promoted r))) df0"
    by (simp add: tbl_def comp_def)
  from assms obtain vs where
    "astype_int (map (\<lambda>r. fillna (Num 0) (to_numeric parse (promoted r))) df0) = Inr vs"
    and "df = set_promoted tbl vs"
    unfolding regression_coerce_def Let_def tbl_def [symmetric] cs
    by (auto split: sum.splits)
  moreover have "length tbl = length df0"
    by (simp add: tbl_def)
  ultimately show ?thesis
    using promoted_pipeline by blast
qed

lemma regression_coerce_fields:
  assumes "regression_coerce parse df0 = Inr df" and "i < length df0"
  shows "points_total (df ! i) = to_numeric parse (points_total (df0 ! i))"
    and "league_position (df ! i) = to_numeric parse (league_position (df0 ! i))"
    and "total_wage_bill_gbp_m (df ! i) = to_numeric parse (total_wage_bill_gbp_m (df0 ! i))"
    and "gross_transfer_spend_gbp_m (df ! i) =
           fillna (Num 0) (to_numeric parse (gross_transfer_spend_gbp_m (df0 ! i)))"
    and "season (df ! i) = season (df0 ! i)" and "club (df ! i) = club (df0 ! i)"
proof -
  from assms(1) obtain vs where
    vs: "astype_int (map (\<lambda>r. fillna (Num 0) (to_numeric parse (promoted r))) df0) = Inr vs"
    by (auto simp: regression_coerce_def Let_def comp_def split: sum.splits)
  then have len: "length vs = length df0"
    by (auto dest!: astype_int_Inr list_all2_lengthD)
  from assms(1) vs have df: "df = set_promoted
      (map (gross_transfer_spend_gbp_m_update (fillna (Num 0)))
        (map (gross_transfer_spend_gbp_m_update (to_numeric parse))
          (map (total_wage_bill_gbp_m_update (to_numeric parse))
            (map (league_position_update (to_numeric parse))
              (map (points_total_update (to_numeric parse)) df0))))) vs"
    by (simp add: regression_coerce_def Let_def comp_def)
  show "points_total (df ! i) = to_numeric parse (points_total (df0 ! i))"
    and "league_position (df ! i) = to_numeric parse (league_position (df0 ! i))"
    and "total_wage_bill_gbp_m (df ! i) = to_numeric parse (total_wage_bill_gbp_m (df0 ! i))"
    and "gross_transfer_spend_gbp_m (df ! i) =
           fillna (Num 0) (to_numeric parse (gross_transfer_spend_gbp_m (df0 ! i)))"
    and "season (df ! i) = season (df0 ! i)" and "club (df ! i) = club (df0 ! i)"
    using assms(2) len by (simp_all add: df set_promoted_nth)
qed

lemma regression_coerce_total:
  "(\<exists>df. regression_coerce parse df0 = Inr df) \<longleftrightarrow>
     (\<forall>r\<in>set df0. to_numeric parse (promoted r) \<noteq> Infinite)"
proof -
  have cell: "(\<exists>e. astype_int_cell (fillna (Num 0) (to_numeric parse c)) = Inl e) \<longleftrightarrow>
      to_numeric parse c = Infinite" for c
    by (cases c) (auto simp: to_numeric_def fillna_def isna_def split: option.splits reading.splits)
  have "(\<exists>df. regression_coerce parse df0 = Inr df) \<longleftrightarrow>
      \<not> (\<exists>e. astype_int (map (\<lambda>r. fillna (Num 0) (to_numeric parse (promoted r))) df0) = Inl e)"
    by (cases "astype_int (map (\<lambda>r. fillna (Num 0) (to_numeric parse (promoted r))) df0)")
       (simp_all add: regression_coerce_def Let_def comp_def)
  then show ?thesis
    by (auto simp: astype_int_Inl cell)
qed


lemma analysis_coerce_total:
  "(\<exists>df. analysis_coerce parse df0 = Inr df) \<longleftrightarrow>
     (\<forall>r\<in>set df0. to_numeric parse (promoted r) \<noteq> Infinite)"
proof -
  have cell: "(\<exists>e. astype_int_cell (fillna (Num 0) (to_numeric parse c)) = Inl e) \<longleftrightarrow>
      to_numeric parse c = Infinite" for c
    by (cases c) (auto simp: to_numeric_def fillna_def isna_def split: option.splits reading.splits)
  have "(\<exists>df. analysis_coerce parse df0 = Inr df) \<longleftrightarrow>
      \<not> (\<exists>e. astype_int (map (\<lambda>r. fillna (Num 0) (to_numeric parse (promoted r))) df0) = Inl e)"
    by (cases "astype_int (map (\<lambda>r. fillna (Num 0) (to_numeric parse (promoted r))) df0)")
       (simp_all add: analysis_coerce_def Let_def comp_def)
  then show ?thesis
    by (auto simp: astype_int_Inl cell)
qed

lemma unplaced_row_coerced:
  "analysis_coerce reads_inf [unplaced_row] = Inr [unplaced_row\<lparr>promoted := IntV 0\<rparr>]"
  "regression_coerce reads_inf [unplaced_row] =
     Inr [unplaced_row\<lparr>gross_transfer_spend_gbp_m := Num 0, promoted := IntV 0\<rparr>]"
  by (simp_all add: analysis_coerce_def regression_coerce_def Let_def set_promoted_def
      unplaced_row_def to_numeric_def fillna_def isna_def int64_of_def toward_zero_def)

lemma unplaced_row_prepared:
  "regression_prepare reads_inf [unplaced_row] = Inr [unplaced_row_kept]"
  by (simp add: regression_prepare_def unplaced_row_coerced dropna_core_def)
     (simp add: unplaced_row_def unplaced_row_kept_def isna_def)

lemma astype_int_out_of_range:
  "astype_int_cell (Num (10 ^ 30)) = Inr (IntV (- (2 ^ 63)))"
  "astype_int_cell (Num 3) = Inr (IntV 3)" "astype_int_cell (Num (- 3)) = Inr (IntV (- 3))"
  by (simp_all add: int64_of_def toward_zero_def)

lemma inf_row_raises:
  "analysis_coerce reads_inf [inf_row] =
     Inl (ValueError ''Cannot convert non-finite values (NA or inf) to integer'')"
  "regression_coerce reads_inf [inf_row] =
     Inl (ValueError ''Cannot convert non-finite values (NA or inf) to integer'')"
  by (simp_all add: analysis_coerce_def regression_coerce_def Let_def inf_row_def to_numeric_def
      reads_inf_def fillna_def isna_def)

lemma model_rows_prepared:
  assumes "\<forall>r\<in>set df. \<not> isna (points_total r) \<and> \<not> isna (total_wage_bill_gbp_m r) \<and>
      \<not> isna (gross_transfer_spend_gbp_m r) \<and> \<not> isna (promoted r)"
  shows "model_rows m df = filter (\<lambda>r. \<not> isna (dependent m r)) df"
  unfolding model_rows_def using assms
  by (cases m) (auto intro!: filter_cong)

text \<open>
  C8. In the analysis script and in the regression script alike, the coercion of the
  promoted column runs through exactly when no promotion value is infinite, also after
  reading (on an infinite one \<^verbatim>\<open>astype(int)\<close> raises); after it the table has as many rows
  as before, every row whose promotion value was missing or unreadable has
  \<open>promoted = 0\<close>, and every promoted cell is an integer.
\<close>

theorem promoted_default_zero:
  "((\<exists>cleaned. analysis_coerce parse df0 = Inr cleaned) \<longleftrightarrow>
      (\<forall>r\<in>set df0. to_numeric parse (promoted r) \<noteq> Infinite)) \<and>
   ((\<exists>prepared. regression_coerce parse df0 = Inr prepared) \<longleftrightarrow>
      (\<forall>r\<in>set df0. to_numeric parse (promoted r) \<noteq> Infinite)) \<and>
   (\<forall>cleaned. analysis_coerce parse df0 = Inr cleaned \<longrightarrow> promoted_coerced parse df0 cleaned) \<and>
   (\<forall>prepared. regression_coerce parse df0 = Inr prepared \<longrightarrow>
      promoted_coerced parse df0 prepared)"
  using analysis_coerce_total [of parse df0] regression_coerce_total [of parse df0]
    analysis_coerce_Inr [of parse df0] regression_coerce_Inr [of parse df0]
  by blast

theorem promoted_default_zero_witness:
  "to_numeric reads_inf (promoted unplaced_row) = Nan \<and>
   analysis_coerce reads_inf [unplaced_row] = Inr [unplaced_row\<lparr>promoted := IntV 0\<rparr>] \<and>
   promoted_coerced reads_inf [unplaced_row] [unplaced_row\<lparr>promoted := IntV 0\<rparr>] \<and>
   regression_coerce reads_inf [unplaced_row] = Inr [unplaced_row_kept] \<and>
   promoted_coerced reads_inf [unplaced_row] [unplaced_row_kept] \<and>
   to_numeric reads_inf (promoted inf_row) = Infinite \<and>
   (\<nexists>cleaned. analysis_coerce reads_inf [inf_row] = Inr cleaned) \<and>
   (\<nexists>prepared. regression_coerce reads_inf [inf_row] = Inr prepared)"
proof -
  have nan: "to_numeric reads_inf (promoted unplaced_row) = Nan"
    by (simp add: to_numeric_def unplaced_row_def)
  have inf: "to_numeric reads_inf (promoted inf_row) = Infinite"
    by (simp add: to_numeric_def inf_row_def reads_inf_def)
  have kept: "unplaced_row\<lparr>gross_transfer_spend_gbp_m := Num 0, promoted := IntV 0\<rparr> =
      unplaced_row_kept"
    by (simp add: unplaced_row_def unplaced_row_kept_def)
  note a = promoted_default_zero [of reads_inf "[unplaced_row]"]
  note b = promoted_default_zero [of reads_inf "[inf_row]"]
  from a have "promoted_coerced reads_inf [unplaced_row] [unplaced_row\<lparr>promoted := IntV 0\<rparr>]"
    and "promoted_coerced reads_inf [unplaced_row] [unplaced_row_kept]"
    by (simp_all add: unplaced_row_coerced kept)
  moreover from b inf have "\<nexists>cleaned. analysis_coerce reads_inf [inf_row] = Inr cleaned"
    and "\<nexists>prepared. regression_coerce reads_inf [inf_row] = Inr prepared"
    by simp_all
  ultimately show ?thesis
    using nan inf by (simp add: unplaced_row_coerced kept)
qed

lemma regression_prepare_returns:
  assumes "\<forall>r\<in>set df0. to_numeric parse (promoted r) \<noteq> Infinite"
  shows "\<exists>coerced df.
           regression_coerce parse df0 = Inr coerced \<and> regression_prepare parse df0 = Inr df \<and>
           length coerced = length df0 \<and>
           (\<forall>i<length df0.
              points_total (coerced ! i) = to_numeric parse (points_total (df0 ! i)) \<and>
              league_position (coerced ! i) = to_numeric parse (league_position (df0 ! i)) \<and>
              total_wage_bill_gbp_m (coerced ! i) = to_numeric parse (total_wage_bill_gbp_m (df0 ! i)) \<and>
              gross_transfer_spend_gbp_m (coerced ! i) =
                (if isna (to_numeric parse (gross_transfer_spend_gbp_m (df0 ! i))) then Num 0
                 else to_numeric parse (gross_transfer_spend_gbp_m (df0 ! i)))) \<and>
           df = filter (\<lambda>r. \<not> isna (points_total r) \<and> \<not> isna (total_wage_bill_gbp_m r)) coerced \<and>
           (\<forall>m. model_rows m df = filter (\<lambda>r. \<not> isna (dependent m r)) df) \<and>
           (\<forall>m. m \<noteq> M4 \<longrightarrow> model_rows m df = df) \<and>
           (\<forall>m. \<forall>r\<in>set (model_rows m df).
              \<not> isna (dependent m r) \<and> \<not> isna (total_wage_bill_gbp_m r) \<and>
              \<not> isna (gross_transfer_spend_gbp_m r))"
proof -
  from assms obtain coerced where c: "regression_coerce parse df0 = Inr coerced"
    using regression_coerce_total [of parse df0] by blast
  define df where "df = dropna_core coerced"
  have p: "regression_prepare parse df0 = Inr df"
    by (simp add: regression_prepare_def c df_def)
  note pc = regression_coerce_Inr [OF c]
  have len: "length coerced = length df0"
    using pc by (simp add: promoted_coerced_def)
  have fields: "points_total (coerced ! i) = to_numeric parse (points_total (df0 ! i)) \<and>
      league_position (coerced ! i) = to_numeric parse (league_position (df0 ! i)) \<and>
      total_wage_bill_gbp_m (coerced ! i) = to_numeric parse (total_wage_bill_gbp_m (df0 ! i)) \<and>
      gross_transfer_spend_gbp_m (coerced ! i) =
        (if isna (to_numeric parse (gross_transfer_spend_gbp_m (df0 ! i))) then Num 0
         else to_numeric parse (gross_transfer_spend_gbp_m (df0 ! i)))"
    if "i < length df0" for i
    using regression_coerce_fields [OF c that] by (simp add: fillna_def)
  have filled: "\<not> isna (gross_transfer_spend_gbp_m r) \<and> \<not> isna (promoted r)"
    if "r \<in> set coerced" for r
  proof -
    from that len obtain i where i: "i < length df0" "r = coerced ! i"
      by (auto simp: in_set_conv_nth)
    from pc i obtain n where "promoted r = IntV n"
      by (auto simp: promoted_coerced_def)
    with fields [of i] i show ?thesis
      by (auto simp: isna_def)
  qed
  have kept: "df = filter (\<lambda>r. \<not> isna (points_total r) \<and> \<not> isna (total_wage_bill_gbp_m r)) coerced"
    by (simp add: df_def dropna_core_def)
  have present: "\<forall>r\<in>set df. \<not> isna (points_total r) \<and> \<not> isna (total_wage_bill_gbp_m r) \<and>
      \<not> isna (gross_transfer_spend_gbp_m r) \<and> \<not> isna (promoted r)"
    using filled by (auto simp: kept)
  have rows: "model_rows m df = filter (\<lambda>r. \<not> isna (dependent m r)) df" for m
    using present by (rule model_rows_prepared)
  have all: "model_rows m df = df" if "m \<noteq> M4" for m
    unfolding rows using that present by (cases m) (auto simp: filter_id_conv)
  have fit: "\<not> isna (dependent m r) \<and> \<not> isna (total_wage_bill_gbp_m r) \<and>
      \<not> isna (gross_transfer_spend_gbp_m r)"
    if "r \<in> set (model_rows m df)" for m r
    using that present by (auto simp: rows)
  from c p len fields kept rows all fit show ?thesis
    by blast
qed

text \<open>
  C7. The preparation returns exactly when no promotion value is infinite, also after
  reading (on an infinite one \<^verbatim>\<open>astype(int)\<close> raises). The table it returns is the coerced
  table without the rows that miss \<open>points_total\<close> or the wage bill, and no other row is
  dropped by the script; a missing transfer spend has become zero. From that table every
  model leaves out, before it is fit, the rows that miss a variable of its formula:
  these are the rows that miss its dependent variable, so none for M1, M2 and M3, and
  for M4 the rows without a league position. Hence each of the four models is fit on
  rows that have its dependent variable, the wage bill and a transfer spend.
\<close>

theorem regression_prepare_rows:
  "((\<exists>df. regression_prepare parse df0 = Inr df) \<longleftrightarrow>
      (\<forall>r\<in>set df0. to_numeric parse (promoted r) \<noteq> Infinite)) \<and>
   ((\<forall>r\<in>set df0. to_numeric parse (promoted r) \<noteq> Infinite) \<longrightarrow>
      (\<exists>coerced df.
         regression_coerce parse df0 = Inr coerced \<and> regression_prepare parse df0 = Inr df \<and>
         length coerced = length df0 \<and>
         (\<forall>i<length df0.
            points_total (coerced ! i) = to_numeric parse (points_total (df0 ! i)) \<and>
            league_position (coerced ! i) = to_numeric parse (league_position (df0 ! i)) \<and>
            total_wage_bill_gbp_m (coerced ! i) = to_numeric parse (total_wage_bill_gbp_m (df0 ! i)) \<and>
            gross_transfer_spend_gbp_m (coerced ! i) =
              (if isna (to_numeric parse (gross_transfer_spend_gbp_m (df0 ! i))) then Num 0
               else to_numeric parse (gross_transfer_spend_gbp_m (df0 ! i)))) \<and>
         df = filter (\<lambda>r. \<not> isna (points_total r) \<and> \<not> isna (total_wage_bill_gbp_m r)) coerced \<and>
         (\<forall>m. model_rows m df = filter (\<lambda>r. \<not> isna (dependent m r)) df) \<and>
         (\<forall>m. m \<noteq> M4 \<longrightarrow> model_rows m df = df) \<and>
         (\<forall>m. \<forall>r\<in>set (model_rows m df).
            \<not> isna (dependent m r) \<and> \<not> isna (total_wage_bill_gbp_m r) \<and>
            \<not> isna (gross_transfer_spend_gbp_m r))))"
proof -
  have "(\<exists>df. regression_prepare parse df0 = Inr df) \<longleftrightarrow>
      (\<exists>coerced. regression_coerce parse df0 = Inr coerced)"
    by (cases "regression_coerce parse df0") (simp_all add: regression_prepare_def)
  then have "(\<exists>df. regression_prepare parse df0 = Inr df) \<longleftrightarrow>
      (\<forall>r\<in>set df0. to_numeric parse (promoted r) \<noteq> Infinite)"
    by (simp only: regression_coerce_total)
  then show ?thesis
    using regression_prepare_returns [of df0 parse] by blast
qed

theorem regression_prepare_rows_witness:
  "to_numeric reads_inf (promoted unplaced_row) = Nan \<and>
   regression_prepare reads_inf [unplaced_row] = Inr [unplaced_row_kept] \<and>
   model_rows M1 [unplaced_row_kept] = [unplaced_row_kept] \<and>
   model_rows M4 [unplaced_row_kept] = [] \<and>
   to_numeric reads_inf (promoted inf_row) = Infinite \<and>
   (\<nexists>df. regression_prepare reads_inf [inf_row] = Inr df)"
proof -
  have nan: "to_numeric reads_inf (promoted unplaced_row) = Nan"
    by (simp add: to_numeric_def unplaced_row_def)
  then have "\<forall>r\<in>set [unplaced_row]. to_numeric reads_inf (promoted r) \<noteq> Infinite"
    by simp
  with regression_prepare_rows [of reads_inf "[unplaced_row]"] obtain df
    where p: "regression_prepare reads_inf [unplaced_row] = Inr df"
      and m1: "model_rows M1 df = filter (\<lambda>r. \<not> isna (dependent M1 r)) df"
      and m4: "model_rows M4 df = filter (\<lambda>r. \<not> isna (dependent M4 r)) df"
    by blast
  from p have df: "df = [unplaced_row_kept]"
    by (simp add: unplaced_row_prepared)
  have "model_rows M1 [unplaced_row_kept] = [unplaced_row_kept]"
    using m1 unfolding df by (simp add: unplaced_row_kept_def isna_def)
  moreover have "model_rows M4 [unplaced_row_kept] = []"
    using m4 unfolding df by (simp add: unplaced_row_kept_def isna_def)
  moreover have inf: "to_numeric reads_inf (promoted inf_row) = Infinite"
    by (simp add: to_numeric_def inf_row_def reads_inf_def)
  moreover from inf regression_prepare_rows [of reads_inf "[inf_row]"]
  have "\<nexists>df. regression_prepare reads_inf [inf_row] = Inr df"
    by simp
  ultimately show ?thesis
    using nan by (simp add: unplaced_row_prepared)
qed

section \<open>Facts about the wages table\<close>

lemma exact_names_contain:
  "cl \<in> {ustr ''annual wages'', ustr ''annual_wages''} \<Longrightarrow>
     contains (ustr ''annual'') cl \<and> contains (ustr ''wage'') cl"
  by (auto simp: ustr_def)

lemma wage_col_candidate_cases:
  "wage_col_candidate c = [] \<and> \<not> is_annual_wages_column c \<or>
   (\<exists>more. wage_col_candidate c = c # more) \<and> is_annual_wages_column c"
proof -
  define cl where "cl = lower (strip c)"
  define both where "both \<longleftrightarrow> contains (ustr ''annual'') cl \<and> contains (ustr ''wage'') cl"
  define exact where "exact \<longleftrightarrow> cl \<in> {ustr ''annual wages'', ustr ''annual_wages''}"
  have cand: "wage_col_candidate c = (if both then [c] else []) @ (if exact then [c] else [])"
    by (simp add: wage_col_candidate_def Let_def cl_def both_def exact_def)
  have col: "is_annual_wages_column c \<longleftrightarrow> both \<or> cl = ustr ''annual wages''"
    by (simp add: is_annual_wages_column_def cl_def both_def)
  have sub: "exact \<Longrightarrow> both"
    unfolding exact_def both_def by (rule exact_names_contain)
  have named: "cl = ustr ''annual wages'' \<Longrightarrow> exact"
    by (simp add: exact_def)
  show ?thesis
  proof (cases both)
    case True
    then show ?thesis by (simp add: cand col)
  next
    case False
    with sub named have "\<not> exact" "cl \<noteq> ustr ''annual wages''" by blast+
    with False show ?thesis by (simp add: cand col)
  qed
qed

lemma wage_col_candidates_Cons:
  "wage_col_candidates (c # cols) = wage_col_candidate c @ wage_col_candidates cols"
  by (simp add: wage_col_candidates_def)

lemma wage_col_candidates_none:
  "find is_annual_wages_column cols = None \<Longrightarrow> wage_col_candidates cols = []"
proof (induction cols)
  case Nil
  then show ?case by (simp add: wage_col_candidates_def)
next
  case (Cons c cols)
  then show ?case
    using wage_col_candidate_cases [of c]
    by (auto simp: wage_col_candidates_Cons split: if_splits)
qed

lemma wage_col_candidates_first:
  "find is_annual_wages_column cols = Some w \<Longrightarrow> \<exists>more. wage_col_candidates cols = w # more"
proof (induction cols)
  case Nil
  then show ?case by simp
next
  case (Cons c cols)
  then show ?case
    using wage_col_candidate_cases [of c]
    by (auto simp: wage_col_candidates_Cons split: if_splits)
qed

lemma wages_table_search_step:
  "wages_table_search (df # df_list) =
     (if qualifies df
      then (case find is_annual_wages_column (columns df) of
              None \<Rightarrow> None
            | Some c \<Rightarrow> Some (df, c))
      else wages_table_search df_list)"
proof -
  have club: "filter is_club_column (columns df) = [] \<longleftrightarrow> \<not> list_ex is_club_column (columns df)"
    by (auto simp: filter_empty_conv list_ex_iff)
  show ?thesis
  proof (cases "find is_annual_wages_column (columns df)")
    case None
    then have "\<not> list_ex is_annual_wages_column (columns df)"
      by (auto simp: list_ex_iff find_None_iff)
    with None wage_col_candidates_none [OF None] show ?thesis
      by (simp add: qualifies_def)
  next
    case (Some w)
    then have "list_ex is_annual_wages_column (columns df)"
      by (auto simp: list_ex_iff find_Some_iff)
    moreover from wage_col_candidates_first [OF Some] obtain more
      where "wage_col_candidates (columns df) = w # more" ..
    ultimately show ?thesis
      using Some by (simp add: qualifies_def club)
  qed
qed

lemma wages_table_search_eq:
  "wages_table_search df_list =
     (case find qualifies df_list of
        None \<Rightarrow> None
      | Some df \<Rightarrow>
          (case find is_annual_wages_column (columns df) of
             None \<Rightarrow> None
           | Some c \<Rightarrow> Some (df, c)))"
proof (induction df_list)
  case Nil
  then show ?case by simp
next
  case (Cons df df_list)
  then show ?case
    by (simp only: wages_table_search_step find.simps split: if_splits) simp
qed

lemma qualifies_has_wage_column:
  "qualifies df \<Longrightarrow> \<exists>c. find is_annual_wages_column (columns df) = Some c"
  by (cases "find is_annual_wages_column (columns df)")
     (auto simp: qualifies_def list_ex_iff find_None_iff)

text \<open>
  C6. \<open>find_wages_table\<close> returns the first table of the list that qualifies, with the
  first of its columns that is an annual wages column, and it raises exactly when no
  table of the list qualifies.
\<close>

theorem find_wages_table_first:
  "(find_wages_table df_list = Inr (df, c) \<longleftrightarrow>
      find qualifies df_list = Some df \<and> find is_annual_wages_column (columns df) = Some c) \<and>
   (find_wages_table df_list = Inl no_wages_table \<longleftrightarrow> \<not> list_ex qualifies df_list) \<and>
   (\<forall>e. find_wages_table df_list = Inl e \<longrightarrow> e = no_wages_table)"
proof -
  have none: "find qualifies df_list = None \<longleftrightarrow> \<not> list_ex qualifies df_list"
    by (auto simp: find_None_iff list_ex_iff)
  have some: "qualifies d" if "find qualifies df_list = Some d" for d
    using that by (auto simp: find_Some_iff)
  show ?thesis
  proof (cases "find qualifies df_list")
    case None
    then show ?thesis
      using none by (simp add: find_wages_table_def wages_table_search_eq)
  next
    case (Some d)
    from qualifies_has_wage_column [OF some [OF Some]] obtain w
      where w: "find is_annual_wages_column (columns d) = Some w" ..
    from Some w none show ?thesis
      by (auto simp: find_wages_table_def wages_table_search_eq)
  qed
qed


lemmas name_simps = lower_def lower_char_def strip_def isspace_def ustr_def

lemma example_columns:
  "\<not> is_club_column (ustr ''Rk'')" "is_club_column (ustr ''Squad'')"
  "\<not> is_annual_wages_column (ustr ''Rk'')" "\<not> is_annual_wages_column (ustr ''Squad'')"
  "\<not> is_annual_wages_column (ustr ''Pts'')" "\<not> is_annual_wages_column (ustr ''Weekly Wages'')"
  "is_annual_wages_column (ustr ''Annual Wages'')"
  by (simp_all add: is_club_column_def is_annual_wages_column_def name_simps)

theorem find_wages_table_first_witness:
  "find_wages_table [standings_table, wages_table] = Inr (wages_table, ustr ''Annual Wages'') \<and>
   find_wages_table [standings_table] = Inl no_wages_table"
proof -
  have s: "\<not> qualifies standings_table"
    by (simp add: qualifies_def standings_table_def example_columns)
  have w: "qualifies wages_table"
    by (simp add: qualifies_def wages_table_def example_columns)
  have c: "find is_annual_wages_column (columns wages_table) = Some (ustr ''Annual Wages'')"
    by (simp add: wages_table_def example_columns)
  have "find_wages_table [standings_table, wages_table] = Inr (wages_table, ustr ''Annual Wages'')"
    using find_wages_table_first [of "[standings_table, wages_table]" wages_table
        "ustr ''Annual Wages''"] s w c
    by simp
  moreover have "find_wages_table [standings_table] = Inl no_wages_table"
    using find_wages_table_first [of "[standings_table]" standings_table "[]"] s
    by simp
  ultimately show ?thesis by simp
qed

section \<open>Facts about the main loop\<close>

lemma scrape_season_fields:
  "results (scrape_season fetch outdir st s) =
     results st @ (case success_entry fetch outdir s of None \<Rightarrow> [] | Some entry \<Rightarrow> [entry])"
  "failures (scrape_season fetch outdir st s) =
     failures st @ (case failure_entry fetch s of None \<Rightarrow> [] | Some entry \<Rightarrow> [entry])"
  by (simp_all add: scrape_season_def success_entry_def failure_entry_def Let_def
      split: sum.splits)

lemma scrape_seasons_fields:
  "results (scrape_seasons fetch outdir seasons st) =
     results st @ List.map_filter (success_entry fetch outdir) seasons"
  "failures (scrape_seasons fetch outdir seasons st) =
     failures st @ List.map_filter (failure_entry fetch) seasons"
  by (induction seasons arbitrary: st)
     (simp_all add: scrape_season_fields List.map_filter_simps split: option.splits)

lemma one_entry_each:
  "length (List.map_filter (success_entry fetch outdir) seasons) +
   length (List.map_filter (failure_entry fetch) seasons) = length seasons"
  by (induction seasons)
     (auto simp: List.map_filter_simps success_entry_def failure_entry_def split: sum.splits)

lemma log_path_not_fail_path: "log_path outdir \<noteq> fail_path outdir"
proof -
  have "ustr ''run_log.csv'' \<noteq> ustr ''failures.csv''"
    by (simp add: ustr_def)
  then show ?thesis
    by (simp add: log_path_def fail_path_def path_join_def ustr_def slash_def)
qed

text \<open>
  C9. Whatever the seasons and whatever each fetch gives, the run ends with every
  season in exactly one of the two lists, in the order of the seasons: in the results
  with its row count and its file when the fetch gave a table, in the failures with the
  message when it raised; a season leaves an entry of exactly one of the two kinds. A
  failure does not stop the seasons after it. Both reports are written, the run log
  from the results and the failure report from the failures.
\<close>

theorem run_seasons_outcomes:
  "results (run_seasons fetch outdir disk seasons) =
     List.map_filter (success_entry fetch outdir) seasons \<and>
   failures (run_seasons fetch outdir disk seasons) =
     List.map_filter (failure_entry fetch) seasons \<and>
   length (results (run_seasons fetch outdir disk seasons)) +
     length (failures (run_seasons fetch outdir disk seasons)) = length seasons \<and>
   files (run_seasons fetch outdir disk seasons) (log_path outdir) =
     Some (RunLog (results (run_seasons fetch outdir disk seasons))) \<and>
   files (run_seasons fetch outdir disk seasons) (fail_path outdir) =
     Some (FailureReport (failures (run_seasons fetch outdir disk seasons))) \<and>
   (success_entry fetch outdir s = None) = (failure_entry fetch s \<noteq> None)"
proof -
  have "(success_entry fetch outdir s = None) = (failure_entry fetch s \<noteq> None)"
    by (simp add: success_entry_def failure_entry_def split: sum.splits)
  then show ?thesis
    using log_path_not_fail_path [of outdir]
    by (simp add: run_seasons_def Let_def scrape_seasons_fields one_entry_each)
qed

theorem run_seasons_outcomes_witness:
  "results (run_seasons example_fetch (ustr ''out'') Map.empty
      [ustr ''2013-2014'', ustr ''2014-2015'', ustr ''2015-2016'']) =
     [(ustr ''2013-2014'', 1, ustr ''out/wages_2013_2014.csv''),
      (ustr ''2015-2016'', 1, ustr ''out/wages_2015_2016.csv'')] \<and>
   failures (run_seasons example_fetch (ustr ''out'') Map.empty
      [ustr ''2013-2014'', ustr ''2014-2015'', ustr ''2015-2016'']) =
     [(ustr ''2014-2015'', ''Could not find a wages table with an annual wages column'')]"
proof -
  have entries:
    "success_entry example_fetch (ustr ''out'') (ustr ''2013-2014'') =
       Some (ustr ''2013-2014'', 1, ustr ''out/wages_2013_2014.csv'')"
    "success_entry example_fetch (ustr ''out'') (ustr ''2014-2015'') = None"
    "success_entry example_fetch (ustr ''out'') (ustr ''2015-2016'') =
       Some (ustr ''2015-2016'', 1, ustr ''out/wages_2015_2016.csv'')"
    "failure_entry example_fetch (ustr ''2013-2014'') = None"
    "failure_entry example_fetch (ustr ''2014-2015'') =
       Some (ustr ''2014-2015'', ''Could not find a wages table with an annual wages column'')"
    "failure_entry example_fetch (ustr ''2015-2016'') = None"
    by (simp_all add: success_entry_def failure_entry_def example_fetch_def wages_table_def
        no_wages_table_def wages_file_def path_join_def replace_char_def hyphen_def
        underscore_def slash_def ustr_def)
  from run_seasons_outcomes [of example_fetch "ustr ''out''" Map.empty
      "[ustr ''2013-2014'', ustr ''2014-2015'', ustr ''2015-2016'']" "ustr ''2013-2014''"]
  show ?thesis
    by (simp add: List.map_filter_simps entries)
qed

section \<open>Facts about the column names\<close>

lemma rename_column_absent: "old \<notin> set cols \<Longrightarrow> rename_column old new cols = cols"
  by (induction cols) (auto simp: rename_column_def)

lemma filter_first_holds: "filter P cols = first # others \<Longrightarrow> P first"
proof -
  assume "filter P cols = first # others"
  then have "first \<in> set (filter P cols)" by simp
  then show "P first" by simp
qed

lemma rename_column_first:
  "filter P cols = first # others \<Longrightarrow> count_list cols first \<le> 1 \<Longrightarrow>
     rename_column first new cols = rename_first P new cols"
proof (induction cols)
  case Nil
  then show ?case by simp
next
  case (Cons c cols)
  show ?case
  proof (cases "P c")
    case True
    with Cons.prems have "c = first" and "first \<notin> set cols"
      by (auto simp: count_list_0_iff)
    with True show ?thesis
      using rename_column_absent [of first cols new] by (simp add: rename_column_def)
  next
    case False
    with Cons.prems have "filter P cols = first # others" by simp
    moreover from this have "P first"
      by (rule filter_first_holds)
    with False have "c \<noteq> first" by auto
    moreover from this Cons.prems(2) have "count_list cols first \<le> 1" by simp
    ultimately show ?thesis
      using Cons.IH False by (simp add: rename_column_def)
  qed
qed

lemma rename_first_same:
  "filter P cols = first # others \<Longrightarrow> rename_first P first cols = cols"
  by (induction cols) (auto split: if_splits)

lemma rename_first_none: "filter P cols = [] \<Longrightarrow> rename_first P new cols = cols"
  by (induction cols) (auto split: if_splits)

lemma distinct_count_le: "distinct cols \<Longrightarrow> count_list cols c \<le> 1"
  by (induction cols) (auto simp: count_list_0_iff)

lemma set_rename_first: "set (rename_first P new cols) \<subseteq> insert new (set cols)"
  by (induction cols) auto

lemma distinct_rename_first:
  "distinct cols \<Longrightarrow> new \<notin> set cols \<Longrightarrow> distinct (rename_first P new cols)"
proof (induction cols)
  case Nil
  then show ?case by simp
next
  case (Cons c cols)
  then show ?case
    using set_rename_first [of P new cols] by auto
qed

lemma count_rename_first:
  "distinct cols \<Longrightarrow> c \<noteq> new \<Longrightarrow> count_list (rename_first P new cols) c \<le> 1"
proof (induction cols)
  case Nil
  then show ?case by simp
next
  case (Cons x cols)
  then show ?case
    using distinct_count_le [of cols c] set_rename_first [of P new cols]
    by (auto simp: count_list_0_iff)
qed

lemma standardise_club_eq:
  assumes "distinct cols"
  shows "standardise_club cols =
       (if ustr ''club'' \<in> set cols then cols else rename_first club_like (ustr ''club'') cols)"
proof (cases "filter club_like cols")
  case Nil
  then show ?thesis
    by (simp add: standardise_club_def rename_first_none)
next
  case (Cons first others)
  from rename_column_first [OF Cons distinct_count_le [OF assms]] Cons show ?thesis
    by (simp add: standardise_club_def)
qed

lemma standardise_promoted_eq:
  assumes "distinct cols"
  shows "standardise_promoted cols = rename_first prom_like (ustr ''promoted'') cols"
proof (cases "filter prom_like cols")
  case Nil
  then show ?thesis
    by (simp add: standardise_promoted_def rename_first_none)
next
  case (Cons first others)
  from rename_column_first [OF Cons distinct_count_le [OF assms]] Cons show ?thesis
    by (simp add: standardise_promoted_def rename_first_same)
qed

lemma not_spend_like_promoted: "\<not> spend_like (ustr ''promoted'')"
  by (simp add: spend_like_def lower_def lower_char_def ustr_def)

lemma standardise_spend_eq:
  assumes "distinct cols"
  shows "standardise_spend (rename_first P (ustr ''promoted'') cols) =
           rename_first spend_like (ustr ''gross_transfer_spend_gbp_m'')
             (rename_first P (ustr ''promoted'') cols)"
proof (cases "filter spend_like (rename_first P (ustr ''promoted'') cols)")
  case Nil
  then show ?thesis
    by (simp add: standardise_spend_def rename_first_none)
next
  case (Cons first others)
  then have "spend_like first"
    by (rule filter_first_holds)
  with not_spend_like_promoted have "first \<noteq> ustr ''promoted''" by auto
  from count_rename_first [OF assms this]
  have "count_list (rename_first P (ustr ''promoted'') cols) first \<le> 1" .
  from rename_column_first [OF Cons this] Cons show ?thesis
    by (simp add: standardise_spend_def rename_first_same)
qed


lemma filter_find:
  "filter P cols = (case find P cols of None \<Rightarrow> [] | Some first \<Rightarrow> first # tl (filter P cols))"
  by (induction cols) (auto split: option.splits)

lemma rename_column_same: "rename_column c c cols = cols"
  by (induction cols) (auto simp: rename_column_def)

lemma standardise_club_as_first:
  "standardise_club cols =
     (if ustr ''club'' \<in> set cols then cols else rename_as_first club_like (ustr ''club'') cols)"
  using filter_find [of club_like cols]
  by (auto simp: standardise_club_def rename_as_first_def rename_column_def
      split: option.splits list.splits)

lemma standardise_promoted_as_first:
  "standardise_promoted cols = rename_as_first prom_like (ustr ''promoted'') cols"
  using filter_find [of prom_like cols] rename_column_same [of "ustr ''promoted''" cols]
  by (auto simp: standardise_promoted_def rename_as_first_def rename_column_def
      split: option.splits list.splits)

lemma standardise_spend_as_first:
  "standardise_spend cols = rename_as_first spend_like (ustr ''gross_transfer_spend_gbp_m'') cols"
  using filter_find [of spend_like cols]
    rename_column_same [of "ustr ''gross_transfer_spend_gbp_m''" cols]
  by (auto simp: standardise_spend_def rename_as_first_def rename_column_def
      split: option.splits list.splits)

text \<open>
  C5, as the code has it. The three steps run in the order club, promoted, transfer
  spend, each on the names as the step before left them. A step replaces the name of the
  first column in column order that matches by the canonical name, in every column
  that carries that name, and the club step does so only when no column is named
  \<^verbatim>\<open>club\<close> yet; columns with other names keep them, and a step without a match changes
  nothing. When the names of the sheet are distinct, each step renames the first match
  alone, and every other column, a later match too, keeps its name.
\<close>

theorem standardise_columns_first_match:
  "standardise_columns cols =
     rename_as_first spend_like (ustr ''gross_transfer_spend_gbp_m'')
       (rename_as_first prom_like (ustr ''promoted'')
         (if ustr ''club'' \<in> set cols then cols
          else rename_as_first club_like (ustr ''club'') cols)) \<and>
   (distinct cols \<longrightarrow>
      standardise_columns cols =
        rename_first spend_like (ustr ''gross_transfer_spend_gbp_m'')
          (rename_first prom_like (ustr ''promoted'')
            (if ustr ''club'' \<in> set cols then cols
             else rename_first club_like (ustr ''club'') cols)))"
proof -
  have general: "standardise_columns cols =
     rename_as_first spend_like (ustr ''gross_transfer_spend_gbp_m'')
       (rename_as_first prom_like (ustr ''promoted'')
         (if ustr ''club'' \<in> set cols then cols
          else rename_as_first club_like (ustr ''club'') cols))"
    by (simp only: standardise_columns_def standardise_club_as_first
        standardise_promoted_as_first standardise_spend_as_first)
  have single: "standardise_columns cols =
        rename_first spend_like (ustr ''gross_transfer_spend_gbp_m'')
          (rename_first prom_like (ustr ''promoted'')
            (if ustr ''club'' \<in> set cols then cols
             else rename_first club_like (ustr ''club'') cols))"
    if d: "distinct cols"
  proof -
    define cols1 where
      "cols1 = (if ustr ''club'' \<in> set cols then cols else rename_first club_like (ustr ''club'') cols)"
    have one: "standardise_club cols = cols1"
      using standardise_club_eq [OF d] by (simp add: cols1_def)
    have "distinct cols1"
      using d distinct_rename_first [of cols "ustr ''club''" club_like] by (simp add: cols1_def)
    then have "standardise_promoted cols1 = rename_first prom_like (ustr ''promoted'') cols1"
      and "standardise_spend (rename_first prom_like (ustr ''promoted'') cols1) =
        rename_first spend_like (ustr ''gross_transfer_spend_gbp_m'')
          (rename_first prom_like (ustr ''promoted'') cols1)"
      by (rule standardise_promoted_eq, rule standardise_spend_eq)
    with one show ?thesis
      by (simp add: standardise_columns_def cols1_def)
  qed
  from general single show ?thesis
    by blast
qed

theorem standardise_columns_first_match_witness:
  "standardise_columns
     [ustr ''Club name'', ustr ''Promoted?'', ustr ''Transfer spend'', ustr ''Club rank'',
      ustr ''Net transfer spend''] =
     [ustr ''club'', ustr ''promoted'', ustr ''gross_transfer_spend_gbp_m'', ustr ''Club rank'',
      ustr ''Net transfer spend'']"
proof -
  let ?cols = "[ustr ''Club name'', ustr ''Promoted?'', ustr ''Transfer spend'',
      ustr ''Club rank'', ustr ''Net transfer spend'']"
  have d: "distinct ?cols"
    by (simp add: ustr_def)
  have names: "club_like (ustr ''Club name'')" "\<not> prom_like (ustr ''club'')"
    "prom_like (ustr ''Promoted?'')" "\<not> spend_like (ustr ''club'')"
    "\<not> spend_like (ustr ''promoted'')" "spend_like (ustr ''Transfer spend'')"
    by (simp_all add: club_like_def prom_like_def spend_like_def lower_def lower_char_def ustr_def)
  have absent: "ustr ''club'' \<notin> set ?cols"
    by (simp add: ustr_def)
  from standardise_columns_first_match [of ?cols] d have
    "standardise_columns ?cols =
        rename_first spend_like (ustr ''gross_transfer_spend_gbp_m'')
          (rename_first prom_like (ustr ''promoted'')
            (if ustr ''club'' \<in> set ?cols then ?cols
             else rename_first club_like (ustr ''club'') ?cols))"
    by blast
  with absent show ?thesis
    by (simp add: names)
qed

text \<open>
  C5, as stated, fails. A name with both \<^verbatim>\<open>club\<close> and \<^verbatim>\<open>promot\<close> in it is taken by the club
  step, so the first column with \<^verbatim>\<open>promot\<close> in it is not renamed to \<^verbatim>\<open>promoted\<close> and the
  later candidate is. And two columns with the same name are renamed together, so the
  later candidate does not keep its name.
\<close>

theorem standardise_columns_later_match_renamed:
  "standardise_columns [ustr ''Club promoted'', ustr ''Promotion''] =
     [ustr ''club'', ustr ''promoted''] \<and>
   standardise_columns [ustr ''Promoted?'', ustr ''Promoted?''] =
     [ustr ''promoted'', ustr ''promoted'']"
proof -
  have names: "club_like (ustr ''Club promoted'')" "\<not> club_like (ustr ''Promotion'')"
    "\<not> club_like (ustr ''Promoted?'')"
    "\<not> prom_like (ustr ''club'')" "prom_like (ustr ''Promotion'')" "prom_like (ustr ''Promoted?'')"
    "\<not> spend_like (ustr ''club'')" "\<not> spend_like (ustr ''promoted'')"
    by (simp_all add: club_like_def prom_like_def spend_like_def lower_def lower_char_def ustr_def)
  have differ: "ustr ''club'' \<noteq> ustr ''Club promoted''" "ustr ''club'' \<noteq> ustr ''Promotion''"
    "ustr ''club'' \<noteq> ustr ''Promoted?''" "ustr ''Promotion'' \<noteq> ustr ''promoted''"
    "ustr ''Promoted?'' \<noteq> ustr ''promoted''" "ustr ''Club promoted'' \<noteq> ustr ''Promotion''"
    by (simp_all add: ustr_def)
  have "standardise_columns [ustr ''Club promoted'', ustr ''Promotion''] =
      [ustr ''club'', ustr ''promoted'']"
    using differ
    by (simp add: standardise_columns_def standardise_club_def standardise_promoted_def
        standardise_spend_def rename_column_def names)
  moreover have "standardise_columns [ustr ''Promoted?'', ustr ''Promoted?''] =
      [ustr ''promoted'', ustr ''promoted'']"
    using differ
    by (simp add: standardise_columns_def standardise_club_def standardise_promoted_def
        standardise_spend_def rename_column_def names)
  ultimately show ?thesis ..
qed

section \<open>Facts about money\<close>

lemma todecimal_gaps:
  "4249 < c \<Longrightarrow> c < 6112 \<Longrightarrow> todecimal c = None"
  "7257 < c \<Longrightarrow> c < 42528 \<Longrightarrow> todecimal c = None"
  by (simp_all add: todecimal_def decimal_zeros_def)

lemma isdecimal_not_space: "isdecimal c \<Longrightarrow> \<not> isspace c"
  unfolding isdecimal_def isspace_def
  using todecimal_below [of c] todecimal_between [of c] todecimal_gaps [of c]
  by auto

lemma isdecimal_not_others:
  "isdecimal c \<Longrightarrow> c \<noteq> full_stop \<and> c \<noteq> small_m \<and> c \<noteq> capital_m \<and> c \<noteq> newline"
  unfolding isdecimal_def
  using todecimal_below [of c] todecimal_between [of c]
  by (auto simp: full_stop_def small_m_def capital_m_def newline_def)

lemma space_facts:
  "\<not> isspace full_stop" "\<not> isspace small_m" "\<not> isspace capital_m" "isspace newline"
  by (simp_all add: isspace_def full_stop_def small_m_def capital_m_def newline_def)

lemma takeWhile_all_stop:
  "list_all P xs \<Longrightarrow> ys = [] \<or> \<not> P (hd ys) \<Longrightarrow> takeWhile P (xs @ ys) = xs"
  by (induction xs) (cases ys; auto)+

lemma dropWhile_all_stop:
  "list_all P xs \<Longrightarrow> ys = [] \<or> \<not> P (hd ys) \<Longrightarrow> dropWhile P (xs @ ys) = ys"
  by (induction xs) (cases ys; auto)+

lemma digits_no_full_stop: "list_all isdecimal ds \<Longrightarrow> list_all (\<lambda>c. c \<noteq> full_stop) ds"
  using isdecimal_not_others by (auto simp: list_all_iff)

lemma whole_of_digits:
  assumes "list_all isdecimal ds"
  shows "takeWhile (\<lambda>c. c \<noteq> full_stop) ds = ds" and "dropWhile (\<lambda>c. c \<noteq> full_stop) ds = []"
  using digits_no_full_stop [OF assms] by (simp_all add: list_all_iff)

lemma is_number_digits:
  assumes "ds \<noteq> []" and "list_all isdecimal ds"
  shows "is_number ds"
  unfolding is_number_def Let_def whole_of_digits [OF assms(2)]
  using assms by simp

lemma is_number_fraction:
  assumes "ds \<noteq> []" and "list_all isdecimal ds" and "fs \<noteq> []" and "list_all isdecimal fs"
  shows "is_number (ds @ full_stop # fs)"
proof -
  have "takeWhile (\<lambda>c. c \<noteq> full_stop) (ds @ full_stop # fs) = ds"
    and "dropWhile (\<lambda>c. c \<noteq> full_stop) (ds @ full_stop # fs) = full_stop # fs"
    using digits_no_full_stop [OF assms(2)]
    by (rule takeWhile_all_stop dropWhile_all_stop, simp)+
  with assms show ?thesis
    unfolding is_number_def Let_def by simp
qed

lemma is_number_cases:
  assumes "is_number n"
  obtains (digits) "n \<noteq> []" "list_all isdecimal n"
  | (fraction) ds fs where "n = ds @ [full_stop] @ fs" "ds \<noteq> []" "list_all isdecimal ds"
      "fs \<noteq> []" "list_all isdecimal fs"
proof -
  define whole where "whole = takeWhile (\<lambda>c. c \<noteq> full_stop) n"
  define rest where "rest = dropWhile (\<lambda>c. c \<noteq> full_stop) n"
  have n: "n = whole @ rest"
    by (simp add: whole_def rest_def)
  from assms have w: "whole \<noteq> []" "list_all isdecimal whole"
    and r: "rest = [] \<or> tl rest \<noteq> [] \<and> list_all isdecimal (tl rest)"
    unfolding is_number_def Let_def whole_def rest_def by blast+
  show thesis
  proof (cases rest)
    case Nil
    with n w show thesis by (intro digits) simp_all
  next
    case (Cons c fs)
    then have "rest \<noteq> []" by simp
    then have "\<not> (hd rest \<noteq> full_stop)"
      unfolding rest_def by (rule hd_dropWhile)
    with Cons have c: "c = full_stop" by simp
    from r Cons have fs: "fs \<noteq> []" "list_all isdecimal fs" by simp_all
    from n Cons c have "n = whole @ [full_stop] @ fs" by simp
    from this w fs show thesis by (rule fraction)
  qed
qed

lemma is_number_last:
  assumes "is_number n"
  shows "n \<noteq> [] \<and> isdecimal (last n)"
  using assms
proof (cases rule: is_number_cases)
  case digits
  then show ?thesis by (simp add: list_all_iff)
next
  case (fraction ds fs)
  then show ?thesis by (simp add: list_all_iff)
qed

lemma number_prefix_eq:
  assumes "takeWhile isdecimal s = ds" and "dropWhile isdecimal s = r0"
  shows "number_prefix s =
     (if ds = [] then None
      else (case r0 of
              [] \<Rightarrow> Some (ds, [])
            | c # r' \<Rightarrow>
                if c = full_stop \<and> takeWhile isdecimal r' \<noteq> []
                then Some (ds @ [c] @ takeWhile isdecimal r', dropWhile isdecimal r')
                else Some (ds, r0)))"
  by (simp only: number_prefix_def Let_def assms)

lemma number_prefix_Some:
  assumes "number_prefix s = Some (g, r)"
  shows "s = g @ r \<and> is_number g"
proof -
  define ds where "ds = takeWhile isdecimal s"
  define r0 where "r0 = dropWhile isdecimal s"
  have s: "s = ds @ r0"
    by (simp add: ds_def r0_def)
  have all: "list_all isdecimal ds"
    by (auto simp: ds_def list_all_iff dest: set_takeWhileD)
  note np = number_prefix_eq [OF ds_def [symmetric] r0_def [symmetric]]
  from assms np have ne: "ds \<noteq> []"
    by (auto split: if_splits)
  show ?thesis
  proof (cases r0)
    case Nil
    with assms np ne have "g = ds" "r = []" by simp_all
    with s Nil ne all show ?thesis
      by (simp add: is_number_digits)
  next
    case (Cons c r')
    define fs where "fs = takeWhile isdecimal r'"
    have r': "r' = fs @ dropWhile isdecimal r'"
      by (simp add: fs_def)
    have fall: "list_all isdecimal fs"
      by (auto simp: fs_def list_all_iff dest: set_takeWhileD)
    show ?thesis
    proof (cases "c = full_stop \<and> fs \<noteq> []")
      case True
      with assms np ne Cons have g: "g = ds @ [full_stop] @ fs" and r: "r = dropWhile isdecimal r'"
        by (simp_all add: fs_def)
      from s Cons True r' g r have "s = g @ r" by simp
      moreover from True ne all fall have "is_number (ds @ full_stop # fs)"
        by (intro is_number_fraction) simp_all
      with g have "is_number g" by simp
      ultimately show ?thesis ..
    next
      case False
      with assms np ne Cons have "g = ds" "r = r0"
        by (auto simp: fs_def)
      with s ne all show ?thesis
        by (simp add: is_number_digits)
    qed
  qed
qed

lemma number_prefix_number:
  assumes "is_number n" and "r = [] \<or> \<not> isdecimal (hd r) \<and> hd r \<noteq> full_stop"
  shows "number_prefix (n @ r) = Some (n, r)"
  using assms(1)
proof (cases rule: is_number_cases)
  case digits
  from assms(2) have stop: "r = [] \<or> \<not> isdecimal (hd r)" by blast
  have tw: "takeWhile isdecimal (n @ r) = n" and dw: "dropWhile isdecimal (n @ r) = r"
    using digits(2) stop by (rule takeWhile_all_stop dropWhile_all_stop)+
  from assms(2) digits(1) show ?thesis
    unfolding number_prefix_eq [OF tw dw] by (cases r) simp_all
next
  case (fraction ds fs)
  have "\<not> isdecimal full_stop"
    using isdecimal_not_others [of full_stop] by blast
  then have stop1: "full_stop # fs @ r = [] \<or> \<not> isdecimal (hd (full_stop # fs @ r))" by simp
  have tw: "takeWhile isdecimal (ds @ full_stop # fs @ r) = ds"
    and dw: "dropWhile isdecimal (ds @ full_stop # fs @ r) = full_stop # fs @ r"
    using fraction(3) stop1 by (rule takeWhile_all_stop dropWhile_all_stop)+
  from assms(2) have stop: "r = [] \<or> \<not> isdecimal (hd r)" by blast
  have tw2: "takeWhile isdecimal (fs @ r) = fs" and dw2: "dropWhile isdecimal (fs @ r) = r"
    using fraction(5) stop by (rule takeWhile_all_stop dropWhile_all_stop)+
  have "number_prefix (ds @ full_stop # fs @ r) = Some (ds @ [full_stop] @ fs, r)"
    unfolding number_prefix_eq [OF tw dw] using fraction(2,4)
    by (simp only: list.case tw2 dw2) simp
  then show ?thesis
    using fraction(1) by simp
qed

lemma rstrip_split: "\<exists>ws. s = rstrip s @ ws \<and> list_all isspace ws"
proof -
  have "rev s = takeWhile isspace (rev s) @ dropWhile isspace (rev s)" by simp
  then have "rev (rev s) = rev (takeWhile isspace (rev s) @ dropWhile isspace (rev s))"
    by (rule arg_cong)
  then have "s = rev (dropWhile isspace (rev s)) @ rev (takeWhile isspace (rev s))"
    by (simp only: rev_rev_ident rev_append)
  moreover have "list_all isspace (rev (takeWhile isspace (rev s)))"
    by (auto simp: list_all_iff dest: set_takeWhileD)
  ultimately show ?thesis
    unfolding rstrip_def by blast
qed

lemma rstrip_append_spaces:
  assumes "list_all isspace ws" and "g = [] \<or> \<not> isspace (last g)"
  shows "rstrip (g @ ws) = g"
proof -
  from assms(2) have stop: "rev g = [] \<or> \<not> isspace (hd (rev g))"
    by (auto simp: hd_rev)
  from assms(1) have "list_all isspace (rev ws)"
    by (simp add: list_all_iff)
  from dropWhile_all_stop [OF this stop] show ?thesis
    by (simp add: rstrip_def)
qed

lemma strip_last: "strip s = [] \<or> \<not> isspace (last (strip s))"
proof -
  define xs where "xs = dropWhile isspace (rev (dropWhile isspace s))"
  have "xs = [] \<or> \<not> isspace (hd xs)"
    unfolding xs_def using hd_dropWhile [of isspace "rev (dropWhile isspace s)"] by blast
  moreover have "strip s = rev xs"
    by (simp add: strip_def xs_def)
  ultimately show ?thesis
    by (auto simp: last_rev)
qed

lemma at_end_stripped:
  assumes "t = [] \<or> \<not> isspace (last t)" and "t = g @ r" and "at_end r"
  shows "r = []"
proof (rule ccontr)
  assume "r \<noteq> []"
  with assms(3) have "r = [newline]" by (simp add: at_end_def)
  with assms(1,2) space_facts(4) show False by simp
qed

lemma millions_match_Some:
  assumes stripped: "t = [] \<or> \<not> isspace (last t)" and "millions_match t = Some g"
  shows "is_millions t \<and> g = millions_number t"
proof -
  from assms(2) obtain r c r' where np: "number_prefix t = Some (g, r)"
    and dw: "dropWhile isspace r = c # r'" and c: "c = small_m \<or> c = capital_m" and e: "at_end r'"
    by (auto simp: millions_match_def split: option.splits list.splits if_splits)
  define ws where "ws = takeWhile isspace r"
  have ws: "list_all isspace ws"
    by (auto simp: ws_def list_all_iff dest: set_takeWhileD)
  have "r = ws @ dropWhile isspace r" by (simp add: ws_def)
  with dw have r: "r = ws @ c # r'" by simp
  from number_prefix_Some [OF np] have t: "t = g @ r" and g: "is_number g" by blast+
  from t r have "t = (g @ ws @ [c]) @ r'" by simp
  from at_end_stripped [OF stripped this e] t r have t': "t = (g @ ws) @ [c]" by simp
  have "butlast ((g @ ws) @ [c]) = g @ ws" by (rule butlast_snoc)
  with t' have bl: "butlast t = g @ ws" "last t = c" "t \<noteq> []" by simp_all
  from is_number_last [OF g] isdecimal_not_space have "g = [] \<or> \<not> isspace (last g)" by blast
  from rstrip_append_spaces [OF ws this] bl have "millions_number t = g"
    by (simp add: millions_number_def)
  with bl c g show ?thesis
    by (simp add: is_millions_def)
qed

lemma millions_match_number:
  assumes "is_millions t"
  shows "millions_match t = Some (millions_number t)"
proof -
  define g where "g = millions_number t"
  define c where "c = last t"
  from assms have ne: "t \<noteq> []" and c: "c = small_m \<or> c = capital_m" and g: "is_number g"
    by (simp_all add: is_millions_def g_def c_def)
  from rstrip_split [of "butlast t"] obtain ws
    where b: "butlast t = g @ ws" and ws: "list_all isspace ws"
    by (auto simp: millions_number_def g_def)
  from ne have "t = butlast t @ [c]" by (simp add: c_def)
  with b have t: "t = g @ (ws @ [c])" by simp
  from c isdecimal_not_others [of c] have cd: "\<not> isdecimal c" "c \<noteq> full_stop"
    by (auto simp: small_m_def capital_m_def full_stop_def)
  have "\<not> isdecimal (hd (ws @ [c])) \<and> hd (ws @ [c]) \<noteq> full_stop"
  proof (cases ws)
    case Nil
    with cd show ?thesis by simp
  next
    case (Cons w ws')
    with ws have "isspace w" by simp
    with Cons isdecimal_not_space [of w] space_facts(1) show ?thesis by auto
  qed
  then have "number_prefix (g @ (ws @ [c])) = Some (g, ws @ [c])"
    by (intro number_prefix_number [OF g]) simp
  with t have np: "number_prefix t = Some (g, ws @ [c])" by simp
  from c space_facts have "\<not> isspace c" by auto
  then have "[c] = [] \<or> \<not> isspace (hd [c])" by simp
  from dropWhile_all_stop [OF ws this] have "dropWhile isspace (ws @ [c]) = [c]" .
  with np c show ?thesis
    by (simp add: millions_match_def at_end_def g_def)
qed

lemma millions_match_eq:
  assumes "t = [] \<or> \<not> isspace (last t)"
  shows "millions_match t = (if is_millions t then Some (millions_number t) else None)"
proof (cases "millions_match t")
  case None
  with millions_match_number [of t] show ?thesis by auto
next
  case (Some g)
  with millions_match_Some [OF assms Some] show ?thesis by simp
qed

lemma plain_match_iff:
  assumes stripped: "t = [] \<or> \<not> isspace (last t)"
  shows "plain_match t \<longleftrightarrow> is_number t"
proof
  assume "plain_match t"
  then obtain g r where np: "number_prefix t = Some (g, r)" and e: "at_end r"
    by (auto simp: plain_match_def split: option.splits)
  from number_prefix_Some [OF np] have t: "t = g @ r" and g: "is_number g" by blast+
  from at_end_stripped [OF stripped t e] t g show "is_number t" by simp
next
  assume "is_number t"
  then have "number_prefix (t @ []) = Some (t, [])"
    by (intro number_prefix_number) simp_all
  then show "plain_match t"
    by (simp add: plain_match_def at_end_def)
qed

lemma lower_char_eq:
  "lower_char a = 110 \<longleftrightarrow> a = 110 \<or> a = 78"
  "lower_char a = 97 \<longleftrightarrow> a = 97 \<or> a = 65"
  "lower_char a = 111 \<longleftrightarrow> a = 111 \<or> a = 79"
  "lower_char a = 101 \<longleftrightarrow> a = 101 \<or> a = 69"
  by (auto simp: lower_char_def)

lemma lower_nan:
  assumes "lower x = ustr ''nan''"
  obtains a b c where "x = [a, b, c]" "a = 110 \<or> a = 78" "b = 97 \<or> b = 65" "c = 110 \<or> c = 78"
proof -
  from assms have "map lower_char x = [110, 97, 110]"
    by (simp add: lower_def ustr_def)
  then obtain a b c where "x = [a, b, c]" "lower_char a = 110" "lower_char b = 97"
    "lower_char c = 110"
    by (auto simp: map_eq_Cons_conv)
  then show thesis
    using that by (simp add: lower_char_eq)
qed

lemma lower_none:
  assumes "lower x = ustr ''none''"
  obtains a b c d where "x = [a, b, c, d]" "a = 110 \<or> a = 78" "b = 111 \<or> b = 79"
    "c = 110 \<or> c = 78" "d = 101 \<or> d = 69"
proof -
  from assms have "map lower_char x = [110, 111, 110, 101]"
    by (simp add: lower_def ustr_def)
  then obtain a b c d where "x = [a, b, c, d]" "lower_char a = 110" "lower_char b = 111"
    "lower_char c = 110" "lower_char d = 101"
    by (auto simp: map_eq_Cons_conv)
  then show thesis
    using that by (simp add: lower_char_eq)
qed

lemma letters_not_money:
  assumes "a = 110 \<or> a = 78" and "z = 110 \<or> z = 78 \<or> z = 101 \<or> z = 69"
    and "comma \<notin> set mid" and "pound \<notin> set mid"
  shows "\<not> is_millions (strip (remove_char comma (remove_char pound (a # mid @ [z]))))"
    and "\<not> is_number (strip (remove_char comma (remove_char pound (a # mid @ [z]))))"
proof -
  have a: "\<not> isspace a" "a \<noteq> comma" "a \<noteq> pound" "\<not> isdecimal a" "a \<noteq> full_stop"
    using assms(1) by (auto simp: isspace_def comma_def pound_def eval_simps full_stop_def)
  have z: "\<not> isspace z" "z \<noteq> comma" "z \<noteq> pound" "z \<noteq> small_m" "z \<noteq> capital_m"
    using assms(2) by (auto simp: isspace_def comma_def pound_def small_m_def capital_m_def)
  have "remove_char comma (remove_char pound (a # mid @ [z])) = a # mid @ [z]"
    using a z assms(3,4) by (auto simp: remove_char_def filter_id_conv)
  moreover have "strip (a # mid @ [z]) = a # mid @ [z]"
    using a z by (simp add: strip_def)
  ultimately have t: "strip (remove_char comma (remove_char pound (a # mid @ [z]))) = a # mid @ [z]"
    by simp
  show "\<not> is_millions (strip (remove_char comma (remove_char pound (a # mid @ [z]))))"
    unfolding t using z by (simp add: is_millions_def)
  show "\<not> is_number (strip (remove_char comma (remove_char pound (a # mid @ [z]))))"
    unfolding t using a by (simp add: is_number_def Let_def)
qed

lemma missing_words_not_money:
  assumes "x = [] \<or> lower x \<in> {ustr ''nan'', ustr ''none''}"
  shows "\<not> is_millions (strip (remove_char comma (remove_char pound x))) \<and>
         \<not> is_number (strip (remove_char comma (remove_char pound x)))"
proof -
  consider "x = []" | "lower x = ustr ''nan''" | "lower x = ustr ''none''"
    using assms by blast
  then show ?thesis
  proof cases
    case 1
    then show ?thesis
      by (simp add: remove_char_def strip_def is_millions_def is_number_def)
  next
    case 2
    then obtain a b c where x: "x = a # [b] @ [c]" and "a = 110 \<or> a = 78" "b = 97 \<or> b = 65"
      "c = 110 \<or> c = 78"
      by (rule lower_nan) simp
    then show ?thesis
      unfolding x by (intro conjI letters_not_money) (auto simp: comma_def pound_def)
  next
    case 3
    then obtain a b c d where x: "x = a # [b, c] @ [d]" and "a = 110 \<or> a = 78"
      "b = 111 \<or> b = 79" "c = 110 \<or> c = 78" "d = 101 \<or> d = 69"
      by (rule lower_none) simp
    then show ?thesis
      unfolding x by (intro conjI letters_not_money) (auto simp: comma_def pound_def)
  qed
qed

lemma bit_length_le: "n < 2 ^ k \<Longrightarrow> bit_length n \<le> k"
proof (induction k arbitrary: n)
  case 0
  then show ?case by (simp add: bit_length.simps)
next
  case (Suc k)
  then have "n div 2 < 2 ^ k" by auto
  from Suc.IH [OF this] show ?case
    by (subst bit_length.simps) simp
qed

lemma bit_length_gt: "2 ^ k \<le> n \<Longrightarrow> k < bit_length n"
proof (induction k arbitrary: n)
  case 0
  then show ?case by (subst bit_length.simps) simp
next
  case (Suc k)
  then have "2 ^ k \<le> n div 2" by auto
  moreover have "(0::nat) < 2 ^ Suc k" by simp
  with Suc.prems have "n \<noteq> 0" by linarith
  ultimately show ?case
    using Suc.IH [of "n div 2"] by (subst bit_length.simps) simp
qed

lemma bit_length_one: "bit_length (Suc 0) = 1" "bit_length 1 = 1"
  by (simp_all add: bit_length.simps)

lemma floor_log2_whole:
  assumes "n < 2 ^ 53"
  shows "floor_log2 n (Suc 0) \<le> 52"
proof -
  have "int (bit_length n) - 1 \<le> 52"
    using bit_length_le [OF assms] by simp
  then show ?thesis
    by (simp add: floor_log2_def bit_length_one Let_def)
qed

lemma round_half_even_whole: "round_half_even n (Suc 0) = n"
  by (simp add: round_half_even_def)

text \<open>A whole number below \<open>2 ^ 53\<close> is a float, and rounding gives the number itself.\<close>

lemma round_binary64_whole:
  assumes "n < 2 ^ 53"
  shows "as_pyfloat (round_binary64 n (Suc 0)) = Finite (of_nat n)"
proof (cases "n = 0")
  case True
  then show ?thesis
    by (simp add: round_binary64_def as_pyfloat_def binary_value_def)
next
  case False
  define p where "p = max (floor_log2 n (Suc 0) - 52) (- 1074)"
  have p: "p \<le> 0"
    using floor_log2_whole [OF assms] by (simp add: p_def)
  have r: "round_binary64 n (Suc 0) =
      (let m = (if 0 \<le> p then round_half_even n (Suc 0 * 2 ^ nat p)
                else round_half_even (n * 2 ^ nat (- p)) (Suc 0))
       in if 0 \<le> p \<and> 2 ^ 1024 \<le> m * 2 ^ nat p then None else Some (m, p))"
    using False unfolding round_binary64_def Let_def p_def by simp
  show ?thesis
  proof (cases "p = 0")
    case True
    have "\<not> (2::nat) ^ 1024 \<le> n" using assms by simp
    with True have "round_binary64 n (Suc 0) = Some (n, 0)"
      unfolding r by (simp add: round_half_even_whole)
    then show ?thesis
      by (simp add: as_pyfloat_def binary_value_def)
  next
    case nz: False
    with p have neg: "p < 0" by simp
    then have "round_binary64 n (Suc 0) = Some (n * 2 ^ nat (- p), p)"
      unfolding r by (simp add: round_half_even_whole)
    with neg show ?thesis
      by (simp add: as_pyfloat_def binary_value_def)
  qed
qed

lemma strip_digits:
  assumes "t \<noteq> []" and "list_all isdecimal t"
  shows "strip t = t"
proof -
  from assms have "isdecimal (hd t)" "isdecimal (last t)"
    by (auto simp: list_all_iff)
  then have h: "\<not> isspace (hd t)" and l: "\<not> isspace (last t)"
    by (auto dest: isdecimal_not_space)
  from assms(1) h have 1: "dropWhile isspace t = t"
    by (cases t) auto
  obtain c u where u: "rev t = c # u"
    using assms(1) by (cases "rev t") auto
  then have "hd (rev t) = c" by simp
  with assms(1) have "c = last t" by (simp add: hd_rev)
  with l have 2: "dropWhile isspace (rev t) = rev t"
    unfolding u by simp
  show ?thesis by (simp add: strip_def 1 2)
qed

lemma py_float_whole:
  assumes "t \<noteq> []" and "list_all isdecimal t"
  shows "py_float t = round_binary64 (nat (decimal_value t)) (Suc 0)"
  unfolding py_float_def Let_def strip_digits [OF assms] whole_of_digits [OF assms(2)] by simp

lemma digits_value_nonneg:
  "0 \<le> a \<Longrightarrow>
   0 \<le> foldl (\<lambda>a c. 10 * a + (case todecimal c of None \<Rightarrow> 0 | Some d \<Rightarrow> int d)) a ds"
  by (induction ds arbitrary: a) (auto split: option.splits)

lemma decimal_value_nonneg: "0 \<le> decimal_value ds"
  unfolding decimal_value_def by (rule digits_value_nonneg) simp

lemma digits_not_millions:
  assumes "list_all isdecimal t"
  shows "\<not> is_millions t"
proof
  assume m: "is_millions t"
  then have "t \<noteq> []" and "last t = small_m \<or> last t = capital_m"
    by (simp_all add: is_millions_def)
  moreover from this assms have "isdecimal (last t)"
    by (auto simp: list_all_iff)
  ultimately show False
    using isdecimal_not_others [of "last t"] by auto
qed

lemma py_float_digits:
  assumes "t \<noteq> []" and "list_all isdecimal t" and "decimal_value t < 2 ^ 53"
  shows "as_pyfloat (py_float t) = Finite (of_int (decimal_value t))"
proof -
  from assms(3) decimal_value_nonneg [of t] have "nat (decimal_value t) < 2 ^ 53"
    by simp
  from round_binary64_whole [OF this] decimal_value_nonneg [of t] show ?thesis
    by (simp add: py_float_whole [OF assms(1,2)])
qed

text \<open>
  C3, as the code has it. A missing cell gives nothing. For a text cell, trim it and take
  out pound signs and commas: if what is left is a number, white space or none, and a
  final \<^verbatim>\<open>m\<close> or \<^verbatim>\<open>M\<close>, the result is the float nearest to that number, times
  1000000 in float arithmetic; if it is a number, the result is the float nearest to
  it, which for a whole number below \<open>2 ^ 53\<close> is the number itself; anything else
  gives nothing, and nothing raises.
\<close>

theorem parse_money_to_gbp_forms:
  "parse_money_to_gbp PyNone = None \<and> parse_money_to_gbp NaN = None \<and>
   parse_money_to_gbp (Str s) =
     (if is_millions (money_text s)
      then Some (as_pyfloat (float_times (py_float (millions_number (money_text s))) 1000000))
      else if is_number (money_text s) then Some (as_pyfloat (py_float (money_text s)))
      else None) \<and>
   (money_text s \<noteq> [] \<and> list_all isdecimal (money_text s) \<and>
    decimal_value (money_text s) < 2 ^ 53 \<longrightarrow>
      parse_money_to_gbp (Str s) = Some (Finite (of_int (decimal_value (money_text s)))))"
proof -
  have stripped: "money_text s = [] \<or> \<not> isspace (last (money_text s))"
    unfolding money_text_def by (rule strip_last)
  note mm = millions_match_eq [OF stripped] and pm = plain_match_iff [OF stripped]
  have main: "parse_money_to_gbp (Str s) =
     (if is_millions (money_text s)
      then Some (as_pyfloat (float_times (py_float (millions_number (money_text s))) 1000000))
      else if is_number (money_text s) then Some (as_pyfloat (py_float (money_text s)))
      else None)"
  proof (cases "strip s = [] \<or> lower (strip s) \<in> {ustr ''nan'', ustr ''none''}")
    case True
    from missing_words_not_money [OF True] have "\<not> is_millions (money_text s)"
      and "\<not> is_number (money_text s)"
      by (simp_all add: money_text_def)
    with True show ?thesis
      by (simp add: parse_money_to_gbp_def Let_def)
  next
    case False
    then have "parse_money_to_gbp (Str s) =
        (case millions_match (money_text s) of
           Some g \<Rightarrow> Some (as_pyfloat (float_times (py_float g) 1000000))
         | None \<Rightarrow>
             if plain_match (money_text s) then Some (as_pyfloat (py_float (money_text s)))
             else None)"
      by (simp only: parse_money_to_gbp_def money_text_def Let_def pyobj.case if_False)
    then show ?thesis
      by (simp only: mm pm) simp
  qed
  have whole: "parse_money_to_gbp (Str s) = Some (Finite (of_int (decimal_value (money_text s))))"
    if "money_text s \<noteq> []" and "list_all isdecimal (money_text s)"
      and "decimal_value (money_text s) < 2 ^ 53"
    unfolding main
    using digits_not_millions [OF that(2)] is_number_digits [OF that(1,2)] py_float_digits [OF that]
    by simp
  show ?thesis
  proof (intro conjI impI)
    show "parse_money_to_gbp PyNone = None" "parse_money_to_gbp NaN = None"
      by (simp_all add: parse_money_to_gbp_def)
    show "parse_money_to_gbp (Str s) =
     (if is_millions (money_text s)
      then Some (as_pyfloat (float_times (py_float (millions_number (money_text s))) 1000000))
      else if is_number (money_text s) then Some (as_pyfloat (py_float (money_text s)))
      else None)"
      by (rule main)
    show "parse_money_to_gbp (Str s) = Some (Finite (of_int (decimal_value (money_text s))))"
      if "money_text s \<noteq> [] \<and> list_all isdecimal (money_text s) \<and>
        decimal_value (money_text s) < 2 ^ 53"
      using that whole by blast
  qed
qed

lemmas money_simps = money_text_def strip_def rstrip_def remove_char_def isspace_def
  comma_def pound_def is_millions_def millions_number_def is_number_def small_m_def
  capital_m_def full_stop_def Let_def

lemmas float_simps = round_binary64_def floor_log2_def round_half_even_def bit_length.simps
  Let_def

lemma py_float_examples:
  "py_float (ustr ''113.9'') = round_binary64 1139 10"
  "py_float (ustr ''113900000'') = round_binary64 113900000 1"
  "py_float (ustr ''2.01'') = round_binary64 201 100"
  by (simp_all add: py_float_def decimal_value_def strip_def isspace_def full_stop_def eval_simps)

lemma round_binary64_examples:
  "round_binary64 1139 10 = Some (8014999961835930, - 46)"
  "round_binary64 113900000 1 = Some (7643699609600000, - 26)"
  "round_binary64 201 100 = Some (4526117625507348, - 51)"
  by (simp_all add: float_simps)

lemma float_times_examples:
  "float_times (Some (8014999961835930, - 46)) 1000000 = Some (7643699609600000, - 26)"
  "float_times (Some (4526117625507348, - 51)) 1000000 = Some (8632884264959999, - 32)"
  by (simp_all add: float_times_def float_simps)

lemma as_pyfloat_examples:
  "as_pyfloat (Some (7643699609600000, - 26)) = Finite 113900000"
  "as_pyfloat (Some (8632884264959999, - 32)) = Finite (2010000 - 1 / 2 ^ 32)"
  by (simp_all add: as_pyfloat_def binary_value_def)

lemma money_text_examples:
  "is_millions (money_text (pound # ustr ''113.9m''))"
  "millions_number (money_text (pound # ustr ''113.9m'')) = ustr ''113.9''"
  "\<not> is_millions (money_text (pound # ustr ''113,900,000''))"
  "is_number (money_text (pound # ustr ''113,900,000''))"
  "\<not> is_millions (money_text (ustr ''N/A''))" "\<not> is_number (money_text (ustr ''N/A''))"
  "\<not> is_millions (money_text (ustr ''''))" "\<not> is_number (money_text (ustr ''''))"
  "is_millions (money_text (ustr ''2.01m''))"
  "millions_number (money_text (ustr ''2.01m'')) = ustr ''2.01''"
  by (simp_all add: money_simps eval_simps)

text \<open>
  \<open>2 ^ 53 + 1\<close> is not a float: it rounds to \<open>2 ^ 53\<close>. A number beyond the largest float
  gives \<^verbatim>\<open>inf\<close>.
\<close>

lemma bit_length_large: "bit_length (10 ^ 309) = 1027"
proof -
  have "bit_length (10 ^ 309) \<le> 1027"
    by (rule bit_length_le) simp
  moreover have "1026 < bit_length (10 ^ 309)"
    by (rule bit_length_gt) simp
  ultimately show ?thesis by simp
qed

lemma round_binary64_inexact:
  "as_pyfloat (round_binary64 (2 ^ 53 + 1) 1) = Finite (2 ^ 53)"
  by (simp add: float_simps as_pyfloat_def binary_value_def)

lemma round_binary64_overflow: "as_pyfloat (round_binary64 (10 ^ 309) 1) = PosInf"
proof -
  have "round_binary64 (10 ^ 309) 1 = None"
    unfolding round_binary64_def floor_log2_def Let_def bit_length_large bit_length_one
    by (simp add: round_half_even_def)
  then show ?thesis
    by (simp add: as_pyfloat_def)
qed

lemma millions_example:
  "as_pyfloat (float_times (py_float (ustr ''113.9'')) 1000000) = Finite 113900000"
  by (simp only: py_float_examples round_binary64_examples float_times_examples
      as_pyfloat_examples)

theorem parse_money_to_gbp_forms_witness:
  "parse_money_to_gbp (Str (pound # ustr ''113.9m'')) = Some (Finite 113900000) \<and>
   money_text (pound # ustr ''113,900,000'') = ustr ''113900000'' \<and>
   parse_money_to_gbp (Str (pound # ustr ''113,900,000'')) = Some (Finite 113900000) \<and>
   parse_money_to_gbp (Str (ustr ''N/A'')) = None \<and>
   parse_money_to_gbp (Str (ustr '''')) = None"
proof -
  have "parse_money_to_gbp (Str (pound # ustr ''113.9m'')) = Some (Finite 113900000)"
    using parse_money_to_gbp_forms [of "pound # ustr ''113.9m''"]
    by (simp add: money_text_examples millions_example)
  moreover have t: "money_text (pound # ustr ''113,900,000'') = ustr ''113900000''"
    by (simp add: money_simps eval_simps)
  moreover have "parse_money_to_gbp (Str (pound # ustr ''113,900,000'')) = Some (Finite 113900000)"
  proof -
    have "ustr ''113900000'' \<noteq> []" "list_all isdecimal (ustr ''113900000'')"
      "decimal_value (ustr ''113900000'') = 113900000"
      by (simp_all add: decimal_value_def eval_simps)
    with parse_money_to_gbp_forms
      [of "pound # ustr ''113,900,000''", THEN conjunct2, THEN conjunct2, THEN conjunct2]
    show ?thesis
      unfolding t by simp
  qed
  moreover have "parse_money_to_gbp (Str (ustr ''N/A'')) = None"
    using parse_money_to_gbp_forms [of "ustr ''N/A''"]
    by (simp add: money_text_examples)
  moreover have "parse_money_to_gbp (Str (ustr '''')) = None"
    using parse_money_to_gbp_forms [of "ustr ''''"]
    by (simp add: money_text_examples)
  ultimately show ?thesis by simp
qed

text \<open>
  C3, as stated, fails: \<^verbatim>\<open>2.01m\<close> is a number with a trailing \<^verbatim>\<open>m\<close>, and the result is not
  2.01 times 1000000 but the float just below it, \<^verbatim>\<open>2009999.9999999998\<close>.
\<close>

theorem parse_money_to_gbp_rounds:
  "parse_money_to_gbp (Str (ustr ''2.01m'')) = Some (Finite (2010000 - 1 / 2 ^ 32)) \<and>
   parse_money_to_gbp (Str (ustr ''2.01m'')) \<noteq> Some (Finite (201 / 100 * 1000000))"
proof -
  have stripped: "money_text (ustr ''2.01m'') = [] \<or> \<not> isspace (last (money_text (ustr ''2.01m'')))"
    unfolding money_text_def by (rule strip_last)
  have "millions_match (money_text (ustr ''2.01m'')) = Some (ustr ''2.01'')"
    by (simp add: millions_match_eq [OF stripped] money_text_examples)
  moreover have "strip (ustr ''2.01m'') \<noteq> []"
    "lower (strip (ustr ''2.01m'')) \<notin> {ustr ''nan'', ustr ''none''}"
    by (simp_all add: strip_def isspace_def lower_def lower_char_def ustr_def)
  ultimately have "parse_money_to_gbp (Str (ustr ''2.01m'')) =
      Some (as_pyfloat (float_times (py_float (ustr ''2.01'')) 1000000))"
    by (simp add: parse_money_to_gbp_def Let_def money_text_def)
  then have "parse_money_to_gbp (Str (ustr ''2.01m'')) = Some (Finite (2010000 - 1 / 2 ^ 32))"
    by (simp only: py_float_examples round_binary64_examples float_times_examples
        as_pyfloat_examples)
  then show ?thesis
    by simp
qed

end
